theory Spec2Isabelle
  imports Main "HOL-Library.Sublist"
begin

section \<open>The offline job outbox of Threads Ops\<close>

text \<open>
  The repository holds two job queues. \<^verbatim>\<open>electron/queue/JobQueue.ts\<close> is the
  main-process outbox: its jobs are the rows of the SQLite table \<^verbatim>\<open>outbox_jobs\<close>.
  \<^verbatim>\<open>src/lib/jobQueue.ts\<close> is the renderer's in-memory queue: its jobs are the
  values of a \<^verbatim>\<open>Map\<close> in insertion order. Both are embedded below, function by
  function. Timestamps are milliseconds since the epoch (the source stores
  \<^verbatim>\<open>toISOString()\<close> texts, whose text order is the order of the instants); every
  reading of the clock and every random draw is an argument of the function that makes it.
\<close>

subsection \<open>Shared vocabulary\<close>

datatype job_type = create_fulfillment | create_label | void_label | inventory_adjust | event_log

datatype job_status = Queued | Running | Succeeded | Failed | Dead

text \<open>\<^verbatim>\<open>String.prototype.includes\<close>: the argument occurs as a contiguous piece.\<close>

definition str_includes :: "string \<Rightarrow> string \<Rightarrow> bool" where
  "str_includes s piece = sublist piece s"

subsection \<open>The main-process outbox (electron/queue/JobQueue.ts)\<close>

text \<open>
  \<^verbatim>\<open>interface OutboxJob\<close>. The field names carry the prefix \<open>ob_\<close> where the
  renderer's \<^verbatim>\<open>Job\<close> has a field of the same name.
\<close>

record OutboxJob =
  ob_id :: string
  ob_type :: job_type
  payload_json :: string
  idempotency_key :: string
  ob_status :: job_status
  ob_attempts :: nat
  next_run_at :: nat
  correlation_id :: "string option"
  created_at :: nat
  updated_at :: nat
  error_message :: "string option"
  last_attempt_at :: "nat option"

text \<open>\<^verbatim>\<open>interface JobResult\<close>; \<open>retryable\<close> is absent from the success results.\<close>

record JobResult =
  success :: bool
  jobId :: string
  jr_error :: "string option"
  retryable :: "bool option"
  jr_correlationId :: "string option"

text \<open>\<^verbatim>\<open>interface QueueStats\<close>, without the two optional display fields.\<close>

record QueueStats =
  qs_total :: nat
  qs_queued :: nat
  qs_running :: nat
  qs_succeeded :: nat
  qs_failed :: nat
  qs_dead :: nat

text \<open>
  What a handler does when it is awaited: it resolves, or it throws an \<^verbatim>\<open>Error\<close>
  with a message.
\<close>

datatype handler_outcome = Resolved | Threw string

text \<open>
  The state of the \<^verbatim>\<open>JobQueue\<close> object: the table \<^verbatim>\<open>outbox_jobs\<close> (rows in
  rowid order), the set \<^verbatim>\<open>activeJobs\<close>, the flag \<^verbatim>\<open>isProcessing\<close>, and the
  local \<^verbatim>\<open>nextJob\<close> of the \<^verbatim>\<open>processNextJob\<close> call that is waiting for its handler.
\<close>

record equeue =
  rows :: "OutboxJob list"
  activeJobs :: "string list"
  isProcessing :: bool
  nextJob :: "OutboxJob option"

definition maxConcurrency :: nat where
  "maxConcurrency = 2"

definition backoffSchedule :: "nat list" where
  "backoffSchedule = [60, 300, 900, 1800, 3600, 7200]"

definition empty_equeue :: equeue where
  "empty_equeue = \<lparr>rows = [], activeJobs = [], isProcessing = False, nextJob = None\<rparr>"

text \<open>\<^verbatim>\<open>SELECT * FROM outbox_jobs WHERE idempotency_key = ?\<close>, then \<^verbatim>\<open>rows[0]\<close>.\<close>

definition getJobByIdempotencyKey :: "string \<Rightarrow> OutboxJob list \<Rightarrow> OutboxJob option" where
  "getJobByIdempotencyKey k rs =
     (case filter (\<lambda>r. idempotency_key r = k) rs of [] \<Rightarrow> None | r # _ \<Rightarrow> Some r)"

text \<open>\<^verbatim>\<open>SELECT * FROM outbox_jobs WHERE id = ?\<close>, then \<^verbatim>\<open>rows[0]\<close>.\<close>

definition getJobById :: "string \<Rightarrow> OutboxJob list \<Rightarrow> OutboxJob option" where
  "getJobById i rs =
     (case filter (\<lambda>r. ob_id r = i) rs of [] \<Rightarrow> None | r # _ \<Rightarrow> Some r)"

text \<open>
  The \<^verbatim>\<open>INSERT\<close> of \<^verbatim>\<open>addJob\<close>. The table declares \<^verbatim>\<open>id TEXT PRIMARY KEY\<close> and
  \<^verbatim>\<open>idempotency_key TEXT NOT NULL UNIQUE\<close>: a row that repeats either is refused
  and the statement throws. The statement writes ten columns; \<^verbatim>\<open>error_message\<close>
  and \<^verbatim>\<open>last_attempt_at\<close> stay NULL.
\<close>

definition insert_row :: "OutboxJob \<Rightarrow> OutboxJob list \<Rightarrow> string + OutboxJob list" where
  "insert_row job rs =
     (if (\<exists>r \<in> set rs. ob_id r = ob_id job) then
        Inl ''UNIQUE constraint failed: outbox_jobs.id''
      else if (\<exists>r \<in> set rs. idempotency_key r = idempotency_key job) then
        Inl ''UNIQUE constraint failed: outbox_jobs.idempotency_key''
      else Inr (rs @ [job\<lparr>error_message := None, last_attempt_at := None\<rparr>]))"

text \<open>
  \<^verbatim>\<open>addJob(jobData)\<close>. \<open>newId\<close> is the generated id, \<open>now\<close> the clock. The
  fields \<open>ob_id\<close>, \<open>created_at\<close> and \<open>updated_at\<close> of \<open>jobData\<close> are the ones
  the \<^verbatim>\<open>Omit\<close> type leaves out: they are overwritten.
\<close>

definition addJob :: "OutboxJob \<Rightarrow> string \<Rightarrow> nat \<Rightarrow> equeue \<Rightarrow> JobResult \<times> equeue" where
  "addJob jobData newId now q =
     (case getJobByIdempotencyKey (idempotency_key jobData) (rows q) of
        Some existingJob \<Rightarrow>
          (\<lparr>success = True, jobId = ob_id existingJob, jr_error = None, retryable = None,
            jr_correlationId = correlation_id existingJob\<rparr>, q)
      | None \<Rightarrow>
          (let job = jobData\<lparr>ob_id := newId, created_at := now, updated_at := now\<rparr> in
           case insert_row job (rows q) of
             Inr rs \<Rightarrow>
               (\<lparr>success = True, jobId = ob_id job, jr_error = None, retryable = None,
                 jr_correlationId = correlation_id job\<rparr>, q\<lparr>rows := rs\<rparr>)
           | Inl msg \<Rightarrow>
               (\<lparr>success = False, jobId = [], jr_error = Some msg, retryable = Some False,
                 jr_correlationId = None\<rparr>, q)))"

text \<open>
  \<^verbatim>\<open>getNextJobToProcess\<close>:
  \<^verbatim>\<open>WHERE status = 'queued' AND next_run_at <= ? ORDER BY created_at ASC LIMIT 1\<close>.
  Rows of equal \<^verbatim>\<open>created_at\<close> keep their rowid order.
\<close>

definition is_due :: "nat \<Rightarrow> OutboxJob \<Rightarrow> bool" where
  "is_due now r = (ob_status r = Queued \<and> next_run_at r \<le> now)"

definition getNextJobToProcess :: "nat \<Rightarrow> OutboxJob list \<Rightarrow> OutboxJob option" where
  "getNextJobToProcess now rs =
     (case take 1 (sort_key created_at (filter (is_due now) rs)) of
        [] \<Rightarrow> None | r # _ \<Rightarrow> Some r)"

text \<open>\<^verbatim>\<open>errorMessage || null\<close>: the empty text is stored as NULL.\<close>

definition or_null :: "string option \<Rightarrow> string option" where
  "or_null e = (case e of None \<Rightarrow> None | Some m \<Rightarrow> (if m = [] then None else Some m))"

text \<open>\<^verbatim>\<open>updateJobStatus(jobId, status, errorMessage?)\<close>: one \<^verbatim>\<open>UPDATE ... WHERE id = ?\<close>.\<close>

definition updateJobStatus ::
    "string \<Rightarrow> job_status \<Rightarrow> string option \<Rightarrow> nat \<Rightarrow> OutboxJob list \<Rightarrow> OutboxJob list" where
  "updateJobStatus i st e now rs =
     map (\<lambda>r. if ob_id r = i
               then r\<lparr>ob_status := st, updated_at := now, error_message := or_null e,
                      last_attempt_at := Some now\<rparr>
               else r) rs"

text \<open>\<^verbatim>\<open>updateJobForRetry(jobId, attempts, nextRunAt, errorMessage?)\<close>.\<close>

definition updateJobForRetry ::
    "string \<Rightarrow> nat \<Rightarrow> nat \<Rightarrow> string option \<Rightarrow> nat \<Rightarrow> OutboxJob list \<Rightarrow> OutboxJob list" where
  "updateJobForRetry i n nextRunAt e now rs =
     map (\<lambda>r. if ob_id r = i
               then r\<lparr>ob_status := Queued, ob_attempts := n, next_run_at := nextRunAt,
                      updated_at := now, error_message := or_null e,
                      last_attempt_at := Some now\<rparr>
               else r) rs"

text \<open>
  \<^verbatim>\<open>isRetryableError(error)\<close> for a thrown \<^verbatim>\<open>Error\<close> with message \<open>m\<close>:
  \<^verbatim>\<open>error.message || error.toString()\<close> is \<open>m\<close>, or the text \<^verbatim>\<open>Error\<close> when
  \<open>m\<close> is empty. The tests run in the order of the source.
\<close>

definition isRetryableError :: "string \<Rightarrow> bool" where
  "isRetryableError m =
     (let errorMessage = (if m = [] then ''Error'' else m) in
      if str_includes errorMessage ''network'' \<or> str_includes errorMessage ''timeout'' then True
      else if str_includes errorMessage ''429'' \<or> str_includes errorMessage ''rate limit'' then True
      else if str_includes errorMessage ''500'' \<or> str_includes errorMessage ''502''
              \<or> str_includes errorMessage ''503'' then True
      else if str_includes errorMessage ''401'' \<or> str_includes errorMessage ''403'' then False
      else if str_includes errorMessage ''400'' \<or> str_includes errorMessage ''404'' then False
      else True)"

text \<open>
  The part of \<^verbatim>\<open>processNextJob\<close> after \<^verbatim>\<open>processJob\<close> has returned: the three
  branches on the result, for the job \<open>j\<close> read by \<^verbatim>\<open>getNextJobToProcess\<close>. The
  backoff entry is read at \<open>nextAttempt - 1\<close>, inside the schedule by the guard.
\<close>

definition apply_result :: "OutboxJob \<Rightarrow> handler_outcome \<Rightarrow> nat \<Rightarrow> OutboxJob list \<Rightarrow> OutboxJob list" where
  "apply_result j out now rs =
     (case out of
        Resolved \<Rightarrow> updateJobStatus (ob_id j) Succeeded None now rs
      | Threw m \<Rightarrow>
          (if isRetryableError m \<and> ob_attempts j < length backoffSchedule then
             (let nextAttempt = ob_attempts j + 1;
                  backoffSeconds = backoffSchedule ! (nextAttempt - 1);
                  nextRunAt = now + backoffSeconds * 1000
              in updateJobForRetry (ob_id j) nextAttempt nextRunAt (Some m) now rs)
           else updateJobStatus (ob_id j) Dead (Some m) now rs))"

text \<open>
  One timer tick of \<^verbatim>\<open>startProcessing\<close> up to the call of the handler: the guard,
  \<^verbatim>\<open>getNextJobToProcess\<close>, and the claim of the job (\<^verbatim>\<open>isProcessing\<close>,
  \<^verbatim>\<open>activeJobs.add\<close>, status \<^verbatim>\<open>running\<close>). The database calls of a tick are
  taken to settle before the next tick, ten seconds later.
\<close>

definition tick :: "nat \<Rightarrow> equeue \<Rightarrow> equeue" where
  "tick now q =
     (if \<not> isProcessing q \<and> length (activeJobs q) < maxConcurrency then
        (case getNextJobToProcess now (rows q) of
           None \<Rightarrow> q
         | Some j \<Rightarrow>
             q\<lparr>isProcessing := True,
               activeJobs := List.insert (ob_id j) (activeJobs q),
               rows := updateJobStatus (ob_id j) Running None now (rows q),
               nextJob := Some j\<rparr>)
      else q)"

text \<open>The rest of \<^verbatim>\<open>processNextJob\<close>, when the awaited handler settles.\<close>

definition settle :: "handler_outcome \<Rightarrow> nat \<Rightarrow> equeue \<Rightarrow> equeue" where
  "settle out now q =
     (case nextJob q of
        None \<Rightarrow> q
      | Some j \<Rightarrow>
          q\<lparr>rows := apply_result j out now (rows q),
            activeJobs := removeAll (ob_id j) (activeJobs q),
            isProcessing := False,
            nextJob := None\<rparr>)"

text \<open>\<^verbatim>\<open>processNextJob\<close> run without interruption: claimed at \<open>t0\<close>, settled at \<open>t1\<close>.\<close>

definition processNextJob :: "nat \<Rightarrow> handler_outcome \<Rightarrow> nat \<Rightarrow> equeue \<Rightarrow> equeue" where
  "processNextJob t0 out t1 q = settle out t1 (tick t0 q)"

text \<open>\<^verbatim>\<open>retryJob(jobId)\<close>: the result and the queue after it.\<close>

record RetryResult =
  rr_success :: bool
  rr_error :: "string option"

definition retryJob :: "string \<Rightarrow> nat \<Rightarrow> equeue \<Rightarrow> RetryResult \<times> equeue" where
  "retryJob i now q =
     (case getJobById i (rows q) of
        None \<Rightarrow> (\<lparr>rr_success = False, rr_error = Some ''Job not found''\<rparr>, q)
      | Some job \<Rightarrow>
          (if ob_status job = Dead then
             (\<lparr>rr_success = True, rr_error = None\<rparr>,
              q\<lparr>rows := updateJobForRetry i 0 now None now (rows q)\<rparr>)
           else (\<lparr>rr_success = False, rr_error = Some ''Job is not in a retryable state''\<rparr>, q)))"

text \<open>\<^verbatim>\<open>clearDeadJobs\<close>: \<^verbatim>\<open>DELETE FROM outbox_jobs WHERE status = 'dead'\<close>, and the count.\<close>

definition clearDeadJobs :: "equeue \<Rightarrow> nat \<times> equeue" where
  "clearDeadJobs q =
     (length (filter (\<lambda>r. ob_status r = Dead) (rows q)),
      q\<lparr>rows := filter (\<lambda>r. ob_status r \<noteq> Dead) (rows q)\<rparr>)"

text \<open>
  \<^verbatim>\<open>getStats\<close>: the query \<^verbatim>\<open>SELECT status, COUNT(*) ... GROUP BY status\<close> gives one
  row per status that occurs, with its count; the loop adds each count to
  \<^verbatim>\<open>total\<close> and stores it in the field of its status.
\<close>

definition group_by_status :: "OutboxJob list \<Rightarrow> (job_status \<times> nat) list" where
  "group_by_status rs =
     map (\<lambda>s. (s, length (filter (\<lambda>r. ob_status r = s) rs))) (remdups (map ob_status rs))"

fun set_count :: "job_status \<Rightarrow> nat \<Rightarrow> QueueStats \<Rightarrow> QueueStats" where
  "set_count Queued n st = st\<lparr>qs_queued := n\<rparr>"
| "set_count Running n st = st\<lparr>qs_running := n\<rparr>"
| "set_count Succeeded n st = st\<lparr>qs_succeeded := n\<rparr>"
| "set_count Failed n st = st\<lparr>qs_failed := n\<rparr>"
| "set_count Dead n st = st\<lparr>qs_dead := n\<rparr>"

definition zero_stats :: QueueStats where
  "zero_stats = \<lparr>qs_total = 0, qs_queued = 0, qs_running = 0, qs_succeeded = 0,
                 qs_failed = 0, qs_dead = 0\<rparr>"

definition getStats :: "equeue \<Rightarrow> QueueStats" where
  "getStats q =
     foldl (\<lambda>st (s, n). set_count s n (st\<lparr>qs_total := qs_total st + n\<rparr>)) zero_stats
       (group_by_status (rows q))"

text \<open>
  The events that reach the queue object, and a history of them. \<open>Tick\<close> is the timer
  of \<^verbatim>\<open>startProcessing\<close>, \<open>Settle\<close> the handler of the claimed job settling.
\<close>

datatype e_event =
    AddJob OutboxJob string nat
  | RetryJob string nat
  | ClearDeadJobs
  | Tick nat
  | Settle handler_outcome nat

fun e_step :: "equeue \<Rightarrow> e_event \<Rightarrow> equeue" where
  "e_step q (AddJob jobData newId now) = snd (addJob jobData newId now q)"
| "e_step q (RetryJob i now) = snd (retryJob i now q)"
| "e_step q ClearDeadJobs = snd (clearDeadJobs q)"
| "e_step q (Tick now) = tick now q"
| "e_step q (Settle out now) = settle out now q"

definition e_run :: "e_event list \<Rightarrow> equeue \<Rightarrow> equeue" where
  "e_run evs q = foldl e_step q evs"

text \<open>
  The callers of \<^verbatim>\<open>queue:add-job\<close> (the pick-and-pack screen) pass
  \<^verbatim>\<open>status: 'queued'\<close> and \<^verbatim>\<open>attempts: 0\<close>.
\<close>

fun e_from_caller :: "e_event \<Rightarrow> bool" where
  "e_from_caller (AddJob jobData newId now) = (ob_status jobData = Queued \<and> ob_attempts jobData = 0)"
| "e_from_caller _ = True"

text \<open>
  What the table and the object keep between events: the two uniqueness constraints of the
  table; a claimed job exactly when \<^verbatim>\<open>isProcessing\<close> is set, and then it is the one
  active job, its row is in the table, and the rows with status \<^verbatim>\<open>running\<close> are
  the rows of that job.
\<close>

definition e_inv :: "equeue \<Rightarrow> bool" where
  "e_inv q =
     (distinct (map ob_id (rows q)) \<and> distinct (map idempotency_key (rows q)) \<and>
      (case nextJob q of
         None \<Rightarrow> activeJobs q = [] \<and> \<not> isProcessing q \<and>
                 list_all (\<lambda>r. ob_status r \<noteq> Running) (rows q)
       | Some j \<Rightarrow> activeJobs q = [ob_id j] \<and> isProcessing q \<and>
                 list_ex (\<lambda>r. ob_id r = ob_id j) (rows q) \<and>
                 list_all (\<lambda>r. (ob_status r = Running) = (ob_id r = ob_id j)) (rows q)))"

definition e_bounded :: "equeue \<Rightarrow> bool" where
  "e_bounded q = list_all (\<lambda>r. ob_attempts r \<le> length backoffSchedule) (rows q)"

subsection \<open>The renderer's in-memory queue (src/lib/jobQueue.ts)\<close>

text \<open>\<^verbatim>\<open>interface Job\<close>, \<^verbatim>\<open>interface JobStats\<close>, \<^verbatim>\<open>interface JobQueueConfig\<close>.\<close>

record Job =
  jb_id :: string
  jb_type :: job_type
  payload :: string
  idempotencyKey :: string
  jb_status :: job_status
  jb_attempts :: nat
  maxAttempts :: nat
  nextRunAt :: nat
  correlationId :: "string option"
  createdAt :: nat
  updatedAt :: nat
  jb_error :: "string option"
  jb_result :: "string option"

record JobStats =
  js_total :: nat
  js_queued :: nat
  js_running :: nat
  js_succeeded :: nat
  js_failed :: nat
  js_dead :: nat

record JobQueueConfig =
  cfg_maxAttempts :: nat
  backoffMultiplier :: nat
  maxBackoffMs :: nat
  jitterMs :: nat
  concurrency :: nat

text \<open>The defaults of the constructor.\<close>

definition default_config :: JobQueueConfig where
  "default_config = \<lparr>cfg_maxAttempts = 6, backoffMultiplier = 2, maxBackoffMs = 30 * 60 * 1000,
                      jitterMs = 1000, concurrency = 2\<rparr>"

text \<open>What \<^verbatim>\<open>executeJob\<close> does when awaited: it returns a result or throws an \<^verbatim>\<open>Error\<close>.\<close>

datatype exec_outcome = Returned string | Thrown string

text \<open>
  The state of the renderer's \<^verbatim>\<open>JobQueue\<close>: \<^verbatim>\<open>config\<close>, the map \<^verbatim>\<open>jobs\<close> as
  the list of its values in insertion order, the set \<^verbatim>\<open>running\<close>,
  \<^verbatim>\<open>isProcessing\<close>, and the locals of the \<^verbatim>\<open>processQueue\<close> call that is
  suspended at \<^verbatim>\<open>await this.processJob(job)\<close>: its \<^verbatim>\<open>now\<close>, the jobs of
  \<^verbatim>\<open>queuedJobs\<close> still to visit (by id), and the job being executed.
\<close>

record rqueue =
  config :: JobQueueConfig
  jobs :: "Job list"
  running :: "string list"
  rq_isProcessing :: bool
  pass_now :: nat
  pass_rest :: "string list"
  pass_job :: "string option"

definition new_rqueue :: "JobQueueConfig \<Rightarrow> rqueue" where
  "new_rqueue cfg = \<lparr>config = cfg, jobs = [], running = [], rq_isProcessing = False,
                      pass_now = 0, pass_rest = [], pass_job = None\<rparr>"

text \<open>\<^verbatim>\<open>this.jobs.get(id)\<close> and \<^verbatim>\<open>this.jobs.set(job.id, job)\<close>: a key that is
  present keeps its place, a new key goes last.\<close>

definition jobs_get :: "string \<Rightarrow> Job list \<Rightarrow> Job option" where
  "jobs_get i js = find (\<lambda>j. jb_id j = i) js"

definition jobs_set :: "Job \<Rightarrow> Job list \<Rightarrow> Job list" where
  "jobs_set job js =
     (if (\<exists>j \<in> set js. jb_id j = jb_id job)
      then map (\<lambda>j. if jb_id j = jb_id job then job else j) js
      else js @ [job])"

text \<open>A mutation of the job object stored under an id.\<close>

definition jobs_modify :: "string \<Rightarrow> (Job \<Rightarrow> Job) \<Rightarrow> Job list \<Rightarrow> Job list" where
  "jobs_modify i f js = map (\<lambda>j. if jb_id j = i then f j else j) js"

text \<open>\<^verbatim>\<open>findJobByIdempotencyKey\<close>: the first job of the map with the key.\<close>

definition findJobByIdempotencyKey :: "string \<Rightarrow> Job list \<Rightarrow> Job option" where
  "findJobByIdempotencyKey k js = find (\<lambda>j. idempotencyKey j = k) js"

text \<open>\<^verbatim>\<open>addJob(type, payload, idempotencyKey, correlationId?)\<close>; \<open>newId\<close> is what
  \<^verbatim>\<open>generateJobId\<close> returns, \<open>now\<close> the clock.\<close>

definition new_job ::
    "JobQueueConfig \<Rightarrow> job_type \<Rightarrow> string \<Rightarrow> string \<Rightarrow> string option \<Rightarrow> string \<Rightarrow> nat \<Rightarrow> Job" where
  "new_job cfg ty pl k corr newId now =
     \<lparr>jb_id = newId, jb_type = ty, payload = pl, idempotencyKey = k, jb_status = Queued,
      jb_attempts = 0, maxAttempts = cfg_maxAttempts cfg, nextRunAt = now,
      correlationId = corr, createdAt = now, updatedAt = now,
      jb_error = None, jb_result = None\<rparr>"

definition r_addJob ::
    "job_type \<Rightarrow> string \<Rightarrow> string \<Rightarrow> string option \<Rightarrow> string \<Rightarrow> nat \<Rightarrow> rqueue \<Rightarrow> string \<times> rqueue" where
  "r_addJob ty pl k corr newId now q =
     (let existingJob = findJobByIdempotencyKey k (jobs q) in
      if existingJob \<noteq> None \<and> jb_status (the existingJob) = Succeeded
      then (jb_id (the existingJob), q)
      else (newId, q\<lparr>jobs := jobs_set (new_job (config q) ty pl k corr newId now) (jobs q)\<rparr>))"

text \<open>\<^verbatim>\<open>getStats\<close>: \<^verbatim>\<open>total\<close> is the size of the map; the loop counts each job
  under its status.\<close>

fun bump :: "job_status \<Rightarrow> JobStats \<Rightarrow> JobStats" where
  "bump Queued st = st\<lparr>js_queued := js_queued st + 1\<rparr>"
| "bump Running st = st\<lparr>js_running := js_running st + 1\<rparr>"
| "bump Succeeded st = st\<lparr>js_succeeded := js_succeeded st + 1\<rparr>"
| "bump Failed st = st\<lparr>js_failed := js_failed st + 1\<rparr>"
| "bump Dead st = st\<lparr>js_dead := js_dead st + 1\<rparr>"

definition r_getStats :: "rqueue \<Rightarrow> JobStats" where
  "r_getStats q =
     foldl (\<lambda>st job. bump (jb_status job) st)
       \<lparr>js_total = length (jobs q), js_queued = 0, js_running = 0, js_succeeded = 0,
        js_failed = 0, js_dead = 0\<rparr> (jobs q)"

text \<open>\<^verbatim>\<open>getJobs(status?, limit = 100)\<close>.\<close>

definition getJobs :: "job_status option \<Rightarrow> nat \<Rightarrow> Job list \<Rightarrow> Job list" where
  "getJobs st limit js =
     (case st of
        Some s \<Rightarrow> take limit (filter (\<lambda>job. jb_status job = s) js)
      | None \<Rightarrow> take limit js)"

text \<open>
  \<^verbatim>\<open>calculateNextRunTime(attempts)\<close>; \<open>jitter\<close> is the whole milliseconds of
  \<^verbatim>\<open>Math.random() * jitterMs\<close>.
\<close>

definition baseDelay :: "JobQueueConfig \<Rightarrow> nat \<Rightarrow> nat" where
  "baseDelay cfg n = min (maxBackoffMs cfg) (backoffMultiplier cfg ^ n * 1000)"

definition calculateNextRunTime :: "JobQueueConfig \<Rightarrow> nat \<Rightarrow> nat \<Rightarrow> nat \<Rightarrow> nat" where
  "calculateNextRunTime cfg n now jitter = now + (baseDelay cfg n + jitter)"

text \<open>\<^verbatim>\<open>retryJob(jobId)\<close>, documented as "Retry a failed job".\<close>

definition r_retryJob :: "string \<Rightarrow> nat \<Rightarrow> nat \<Rightarrow> rqueue \<Rightarrow> bool \<times> rqueue" where
  "r_retryJob i now jitter q =
     (case jobs_get i (jobs q) of
        None \<Rightarrow> (False, q)
      | Some job \<Rightarrow>
          (if jb_status job \<noteq> Failed then (False, q)
           else if jb_attempts job \<ge> maxAttempts job then
             (False, q\<lparr>jobs := jobs_modify i (\<lambda>j. j\<lparr>jb_status := Dead, updatedAt := now\<rparr>) (jobs q)\<rparr>)
           else
             (True,
              q\<lparr>jobs := jobs_modify i
                   (\<lambda>j. j\<lparr>jb_status := Queued, jb_attempts := jb_attempts j + 1,
                          nextRunAt := calculateNextRunTime (config q) (jb_attempts j + 1) now jitter,
                          updatedAt := now, jb_error := None\<rparr>) (jobs q)\<rparr>)))"

text \<open>\<^verbatim>\<open>clearDeadJobs\<close>.\<close>

definition r_clearDeadJobs :: "rqueue \<Rightarrow> nat \<times> rqueue" where
  "r_clearDeadJobs q =
     (length (filter (\<lambda>j. jb_status j = Dead) (jobs q)),
      q\<lparr>jobs := filter (\<lambda>j. jb_status j \<noteq> Dead) (jobs q)\<rparr>)"

text \<open>
  \<^verbatim>\<open>processJob\<close> after the awaited \<^verbatim>\<open>executeJob\<close>: the \<^verbatim>\<open>try\<close> branch or the
  \<^verbatim>\<open>catch\<close> branch, as a mutation of the job.
\<close>

definition job_settled :: "JobQueueConfig \<Rightarrow> exec_outcome \<Rightarrow> nat \<Rightarrow> nat \<Rightarrow> Job \<Rightarrow> Job" where
  "job_settled cfg out now jitter job =
     (case out of
        Returned r \<Rightarrow> job\<lparr>jb_status := Succeeded, jb_result := Some r, updatedAt := now\<rparr>
      | Thrown m \<Rightarrow>
          (let job1 = job\<lparr>jb_attempts := jb_attempts job + 1, jb_error := Some m, updatedAt := now\<rparr>
           in if jb_attempts job1 \<ge> maxAttempts job1 then job1\<lparr>jb_status := Dead\<rparr>
              else job1\<lparr>jb_status := Failed,
                        nextRunAt := calculateNextRunTime cfg (jb_attempts job1) now jitter\<rparr>))"

text \<open>The \<^verbatim>\<open>finally\<close> of \<^verbatim>\<open>processQueue\<close>.\<close>

definition end_pass :: "rqueue \<Rightarrow> rqueue" where
  "end_pass q = q\<lparr>rq_isProcessing := False, pass_rest := [], pass_job := None\<rparr>"

text \<open>
  The \<^verbatim>\<open>for\<close> loop of \<^verbatim>\<open>processQueue\<close> over the jobs still to visit, up to the
  next \<^verbatim>\<open>await\<close> of a handler: \<^verbatim>\<open>break\<close> at the concurrency limit,
  \<^verbatim>\<open>continue\<close> on a job that is not due, and \<^verbatim>\<open>processJob\<close>, which returns at
  once for a job of the running set and otherwise adds it to the set, marks it running
  and waits. \<open>t\<close> is the clock. A job of \<^verbatim>\<open>queuedJobs\<close> is looked up by its id;
  the map never loses a queued job, so the lookup finds it.
\<close>

fun dispatch_loop :: "nat \<Rightarrow> string list \<Rightarrow> rqueue \<Rightarrow> rqueue" where
  "dispatch_loop t [] q = end_pass q"
| "dispatch_loop t (i # rest) q =
     (if length (running q) \<ge> concurrency (config q) then end_pass q
      else (case jobs_get i (jobs q) of
              None \<Rightarrow> dispatch_loop t rest q
            | Some job \<Rightarrow>
                (if nextRunAt job > pass_now q then dispatch_loop t rest q
                 else if i \<in> set (running q) then dispatch_loop t rest q
                 else q\<lparr>running := running q @ [i],
                        jobs := jobs_modify i (\<lambda>j. j\<lparr>jb_status := Running, updatedAt := t\<rparr>) (jobs q),
                        pass_rest := rest,
                        pass_job := Some i\<rparr>)))"

text \<open>\<^verbatim>\<open>processQueue\<close>, from its guard to the first awaited handler.\<close>

definition processQueue :: "nat \<Rightarrow> rqueue \<Rightarrow> rqueue" where
  "processQueue now q =
     (if rq_isProcessing q \<or> length (running q) \<ge> concurrency (config q) then q
      else dispatch_loop now (map jb_id (getJobs (Some Queued) 100 (jobs q)))
             (q\<lparr>rq_isProcessing := True, pass_now := now\<rparr>))"

text \<open>The awaited handler settles: the rest of \<^verbatim>\<open>processJob\<close>, then the loop goes on.\<close>

definition r_settle :: "exec_outcome \<Rightarrow> nat \<Rightarrow> nat \<Rightarrow> rqueue \<Rightarrow> rqueue" where
  "r_settle out now jitter q =
     (case pass_job q of
        None \<Rightarrow> q
      | Some i \<Rightarrow>
          dispatch_loop now (pass_rest q)
            (q\<lparr>jobs := jobs_modify i (job_settled (config q) out now jitter) (jobs q),
               running := removeAll i (running q),
               pass_job := None\<rparr>))"

text \<open>The events that reach the renderer's queue, and a history of them.\<close>

datatype r_event =
    RAddJob job_type string string "string option" string nat
  | RRetryJob string nat nat
  | RClearDeadJobs
  | RProcessQueue nat
  | RSettle exec_outcome nat nat

fun r_step :: "rqueue \<Rightarrow> r_event \<Rightarrow> rqueue" where
  "r_step q (RAddJob ty pl k corr newId now) = snd (r_addJob ty pl k corr newId now q)"
| "r_step q (RRetryJob i now jitter) = snd (r_retryJob i now jitter q)"
| "r_step q RClearDeadJobs = snd (r_clearDeadJobs q)"
| "r_step q (RProcessQueue now) = processQueue now q"
| "r_step q (RSettle out now jitter) = r_settle out now jitter q"

text \<open>
  \<^verbatim>\<open>generateJobId\<close> is documented to give a unique id: a history is \<open>fresh\<close> when
  every id it brings is new to the map.
\<close>

fun r_fresh :: "r_event list \<Rightarrow> rqueue \<Rightarrow> bool" where
  "r_fresh [] q = True"
| "r_fresh (ev # evs) q =
     ((case ev of RAddJob ty pl k corr newId now \<Rightarrow> newId \<notin> jb_id ` set (jobs q) | _ \<Rightarrow> True)
      \<and> r_fresh evs (r_step q ev))"

definition r_run :: "r_event list \<Rightarrow> rqueue \<Rightarrow> rqueue" where
  "r_run evs q = foldl r_step q evs"


text \<open>
  What the renderer's queue keeps between events: the ids of the map are distinct; the jobs
  still to visit are distinct and queued; with no handler awaited the running set is empty,
  no pass is open and no job is marked running; with a handler awaited for job \<open>i\<close> the
  running set is \<open>{i}\<close>, the pass is open, the limit is at least one, the job is in the
  map, and the jobs marked running are the job \<open>i\<close>.
\<close>

definition r_inv :: "rqueue \<Rightarrow> bool" where
  "r_inv q =
     (distinct (map jb_id (jobs q)) \<and> distinct (pass_rest q) \<and>
      list_all (\<lambda>j. jb_id j \<in> set (pass_rest q) \<longrightarrow> jb_status j = Queued) (jobs q) \<and>
      (case pass_job q of
         None \<Rightarrow> running q = [] \<and> \<not> rq_isProcessing q \<and> pass_rest q = [] \<and>
                 list_all (\<lambda>j. jb_status j \<noteq> Running) (jobs q)
       | Some i \<Rightarrow> running q = [i] \<and> rq_isProcessing q \<and> 1 \<le> concurrency (config q) \<and>
                 list_ex (\<lambda>j. jb_id j = i) (jobs q) \<and>
                 list_all (\<lambda>j. (jb_status j = Running) = (jb_id j = i)) (jobs q)))"

subsection \<open>Sample jobs\<close>

text \<open>
  A label job for order O1, as the pick-and-pack screen enqueues it, and the same job in
  the renderer's queue. The concrete instances below are built from them.
\<close>

definition sample_row :: OutboxJob where
  "sample_row =
     \<lparr>ob_id = ''job_1'', ob_type = create_label, payload_json = ''{orderId: O1}'',
      idempotency_key = ''label_O1'', ob_status = Queued, ob_attempts = 0, next_run_at = 1000,
      correlation_id = Some ''O1'', created_at = 1000, updated_at = 1000,
      error_message = None, last_attempt_at = None\<rparr>"

definition sample_job :: Job where
  "sample_job = new_job default_config create_label ''{orderId: O1}'' ''label_O1'' (Some ''O1'')
                  ''job_1'' 1000"

definition equeue_of :: "OutboxJob list \<Rightarrow> equeue" where
  "equeue_of rs = empty_equeue\<lparr>rows := rs\<rparr>"

definition rqueue_of :: "Job list \<Rightarrow> rqueue" where
  "rqueue_of js = (new_rqueue default_config)\<lparr>jobs := js\<rparr>"

text \<open>Histories of events for the concrete instances.\<close>

definition shadowed_key_history :: "r_event list" where
  "shadowed_key_history =
     [RAddJob create_label ''{orderId: O1}'' ''label_O1'' (Some ''O1'') ''job_1'' 1000,
      RProcessQueue 1100,
      RSettle (Thrown ''503 Service Unavailable'') 1300 0,
      RAddJob create_label ''{orderId: O1}'' ''label_O1'' (Some ''O1'') ''job_2'' 2000,
      RProcessQueue 2100,
      RSettle (Returned ''{labelId: L1}'') 2300 0]"

definition e_three_jobs_history :: "e_event list" where
  "e_three_jobs_history =
     [AddJob sample_row ''job_1'' 1000,
      AddJob (sample_row\<lparr>idempotency_key := ''label_O2''\<rparr>) ''job_2'' 1100,
      AddJob (sample_row\<lparr>idempotency_key := ''label_O3''\<rparr>) ''job_3'' 1200,
      Tick 2000]"

definition r_three_jobs_history :: "r_event list" where
  "r_three_jobs_history =
     [RAddJob create_label ''{orderId: O1}'' ''label_O1'' None ''job_1'' 1000,
      RAddJob create_label ''{orderId: O2}'' ''label_O2'' None ''job_2'' 1100,
      RAddJob create_label ''{orderId: O3}'' ''label_O3'' None ''job_3'' 1200,
      RProcessQueue 2000]"

definition e_later_history :: "e_event list" where
  "e_later_history =
     [AddJob sample_row ''job_2'' 4000,
      AddJob (sample_row\<lparr>idempotency_key := ''label_O2''\<rparr>) ''job_3'' 4100,
      RetryJob ''job_1'' 5000,
      Tick 6000,
      Settle (Threw ''404 Not Found'') 7000,
      ClearDeadJobs]"

definition r_later_history :: "r_event list" where
  "r_later_history =
     [RAddJob create_label ''{orderId: O1}'' ''label_O1'' (Some ''O1'') ''job_2'' 4000,
      RAddJob create_label ''{orderId: O2}'' ''label_O2'' None ''job_3'' 4100,
      RRetryJob ''job_1'' 5000 0,
      RProcessQueue 6000,
      RSettle (Thrown ''404 Not Found'') 7000 0,
      RClearDeadJobs]"

definition r_two_jobs_history :: "r_event list" where
  "r_two_jobs_history =
     [RAddJob create_label ''{orderId: O1}'' ''label_O1'' None ''job_A'' 1000,
      RAddJob create_label ''{orderId: O2}'' ''label_O2'' None ''job_B'' 2000]"

text \<open>
  A backlog for the renderer's queue: a hundred label jobs, \<^verbatim>\<open>job_00\<close> to
  \<^verbatim>\<open>job_99\<close>, each enqueued, handed over, failed with "503 Service Unavailable" and
  sent back by \<^verbatim>\<open>retryJob\<close>, ten milliseconds apart. \<open>backlog_job k\<close> is job
  \<open>k\<close> after its round: queued again with two attempts and due four seconds after the
  retry. The backlogged history then enqueues the jobs A and B of the two-job history.
\<close>

definition backlog_id :: "nat \<Rightarrow> string" where
  "backlog_id k = ''job_'' @ [''0123456789'' ! (k div 10), ''0123456789'' ! (k mod 10)]"



definition backlog_job :: "nat \<Rightarrow> Job" where
  "backlog_job k =
     (new_job default_config create_label ''{}'' (''label_'' @ backlog_id k) None (backlog_id k) (10 * k))
       \<lparr>jb_attempts := 2, nextRunAt := 10 * k + 4005, updatedAt := 10 * k + 5\<rparr>"


definition e_one_failure_history :: "e_event list" where
  "e_one_failure_history =
     [AddJob sample_row ''job_1'' 1000,
      Tick 2000,
      Settle (Threw ''503 Service Unavailable'') 3000]"

section \<open>Properties\<close>

subsection \<open>Lookups in the table\<close>

lemma first_filter_find:
  "(case filter P xs of [] \<Rightarrow> None | x # _ \<Rightarrow> Some x) = find P xs"
  by (induction xs) simp_all

lemma getJobById_find: "getJobById i rs = find (\<lambda>r. ob_id r = i) rs"
  by (simp add: getJobById_def first_filter_find)

lemma getJobByIdempotencyKey_find:
  "getJobByIdempotencyKey k rs = find (\<lambda>r. idempotency_key r = k) rs"
  by (simp add: getJobByIdempotencyKey_def first_filter_find)

lemma getJobById_map:
  assumes "\<And>r. ob_id (f r) = ob_id r"
  shows "getJobById i (map f rs) = map_option f (getJobById i rs)"
proof -
  have "filter (\<lambda>r. ob_id r = i) (map f rs) = map f (filter (\<lambda>r. ob_id r = i) rs)"
    by (induction rs) (simp_all add: assms)
  then show ?thesis
    by (simp add: getJobById_def split: list.splits)
qed

lemma getJobById_SomeD: "getJobById i rs = Some r \<Longrightarrow> r \<in> set rs \<and> ob_id r = i"
proof -
  assume a: "getJobById i rs = Some r"
  then obtain xs where "filter (\<lambda>r. ob_id r = i) rs = r # xs"
    by (auto simp: getJobById_def split: list.splits)
  then have "r \<in> set (filter (\<lambda>r. ob_id r = i) rs)" by simp
  then show ?thesis by simp
qed

lemma getJobById_None: "getJobById i rs = None \<longleftrightarrow> i \<notin> ob_id ` set rs"
  by (auto simp: getJobById_find find_None_iff)

lemma first_by_distinct:
  "distinct (map f rs) \<Longrightarrow> r \<in> set rs \<Longrightarrow> filter (\<lambda>x. f x = f r) rs = [r]"
proof (induction rs)
  case Nil then show ?case by simp
next
  case (Cons a rs)
  show ?case
  proof (cases "a = r")
    case True
    with Cons.prems have "\<forall>x\<in>set rs. f x \<noteq> f r" by (auto simp: image_iff)
    then have "filter (\<lambda>x. f x = f r) rs = []" by (simp add: filter_empty_conv)
    with True show ?thesis by simp
  next
    case False
    with Cons.prems have "r \<in> set rs" "f a \<noteq> f r" "distinct (map f rs)" by (auto simp: image_iff)
    with Cons.IH show ?thesis by simp
  qed
qed

lemma getJobById_distinct:
  "distinct (map ob_id rs) \<Longrightarrow> r \<in> set rs \<Longrightarrow> getJobById (ob_id r) rs = Some r"
  by (simp add: getJobById_def first_by_distinct)

lemma getJobByIdempotencyKey_distinct:
  "distinct (map idempotency_key rs) \<Longrightarrow> r \<in> set rs \<Longrightarrow>
     getJobByIdempotencyKey (idempotency_key r) rs = Some r"
  by (simp add: getJobByIdempotencyKey_def first_by_distinct)

lemma getJobByIdempotencyKey_None:
  "getJobByIdempotencyKey k rs = None \<longleftrightarrow> k \<notin> idempotency_key ` set rs"
  by (auto simp: getJobByIdempotencyKey_find find_None_iff)

lemma e_addJob_existing:
  assumes "distinct (map idempotency_key (rows q))" "J \<in> set (rows q)"
    and "idempotency_key jobData = idempotency_key J"
  shows "addJob jobData newId now q =
           (\<lparr>success = True, jobId = ob_id J, jr_error = None, retryable = None,
             jr_correlationId = correlation_id J\<rparr>, q)"
  using assms by (simp add: addJob_def getJobByIdempotencyKey_distinct)

lemma e_retryJob_dead:
  assumes "getJobById i (rows q) = Some job" "ob_status job = Dead"
  shows "fst (retryJob i now q) = \<lparr>rr_success = True, rr_error = None\<rparr>"
    and "getJobById i (rows (snd (retryJob i now q))) =
           Some (job\<lparr>ob_status := Queued, ob_attempts := 0, next_run_at := now,
                      updated_at := now, error_message := None, last_attempt_at := Some now\<rparr>)"
proof -
  show "fst (retryJob i now q) = \<lparr>rr_success = True, rr_error = None\<rparr>"
    using assms by (simp add: retryJob_def)
  have "getJobById i (updateJobForRetry i 0 now None now (rows q)) =
        map_option (\<lambda>r. if ob_id r = i
               then r\<lparr>ob_status := Queued, ob_attempts := 0, next_run_at := now,
                      updated_at := now, error_message := or_null None,
                      last_attempt_at := Some now\<rparr>
               else r) (getJobById i (rows q))"
    unfolding updateJobForRetry_def by (rule getJobById_map) simp
  with assms getJobById_SomeD[OF assms(1)]
  show "getJobById i (rows (snd (retryJob i now q))) =
           Some (job\<lparr>ob_status := Queued, ob_attempts := 0, next_run_at := now,
                      updated_at := now, error_message := None, last_attempt_at := Some now\<rparr>)"
    by (simp add: retryJob_def or_null_def)
qed

lemma e_retryJob_other:
  assumes "getJobById i (rows q) = Some job" "ob_status job \<noteq> Dead"
  shows "retryJob i now q =
           (\<lparr>rr_success = False, rr_error = Some ''Job is not in a retryable state''\<rparr>, q)"
  using assms by (simp add: retryJob_def)

lemma e_retryJob_absent:
  assumes "getJobById i (rows q) = None"
  shows "retryJob i now q = (\<lparr>rr_success = False, rr_error = Some ''Job not found''\<rparr>, q)"
  using assms by (simp add: retryJob_def)

lemma e_retryJob_success_iff:
  "rr_success (fst (retryJob i now q)) \<longleftrightarrow>
     (\<exists>job. getJobById i (rows q) = Some job \<and> ob_status job = Dead)"
  by (auto simp: retryJob_def split: option.splits)

subsection \<open>The selection of the next job, the schedule and the classifier\<close>

lemma getNext_SomeD:
  assumes "getNextJobToProcess now rs = Some r"
  shows "r \<in> set rs" "is_due now r" "\<forall>r' \<in> set rs. is_due now r' \<longrightarrow> created_at r \<le> created_at r'"
proof -
  let ?xs = "sort_key created_at (filter (is_due now) rs)"
  from assms obtain rest where xs: "?xs = r # rest"
    by (cases ?xs) (auto simp: getNextJobToProcess_def)
  have "r \<in> set ?xs" by (simp add: xs)
  then show "r \<in> set rs" "is_due now r" by simp_all
  have "sorted (map created_at ?xs)" by simp
  then have "\<forall>x \<in> set rest. created_at r \<le> created_at x" by (simp add: xs)
  moreover have "set ?xs = {x \<in> set rs. is_due now x}" by simp
  ultimately show "\<forall>r' \<in> set rs. is_due now r' \<longrightarrow> created_at r \<le> created_at r'"
    using xs by (metis (mono_tags, lifting) mem_Collect_eq order_refl set_ConsD)
qed


lemma backoff_strict: "sorted_wrt (<) backoffSchedule"
  by (simp add: backoffSchedule_def)


lemma isRetryable_503: "isRetryableError ''503 Service Unavailable''"
  by code_simp


subsection \<open>The outbox keeps its invariant\<close>

lemma updateJobStatus_ids [simp]: "map ob_id (updateJobStatus i st e now rs) = map ob_id rs"
  by (induction rs) (simp_all add: updateJobStatus_def)

lemma updateJobStatus_keys [simp]:
  "map idempotency_key (updateJobStatus i st e now rs) = map idempotency_key rs"
  by (induction rs) (simp_all add: updateJobStatus_def)

lemma updateJobForRetry_ids [simp]: "map ob_id (updateJobForRetry i n t e now rs) = map ob_id rs"
  by (induction rs) (simp_all add: updateJobForRetry_def)

lemma updateJobForRetry_keys [simp]:
  "map idempotency_key (updateJobForRetry i n t e now rs) = map idempotency_key rs"
  by (induction rs) (simp_all add: updateJobForRetry_def)

lemma apply_result_ids [simp]: "map ob_id (apply_result j out now rs) = map ob_id rs"
  by (simp add: apply_result_def Let_def split: handler_outcome.splits)

lemma apply_result_keys [simp]:
  "map idempotency_key (apply_result j out now rs) = map idempotency_key rs"
  by (simp add: apply_result_def Let_def split: handler_outcome.splits)

lemma apply_result_other:
  "r \<in> set rs \<Longrightarrow> ob_id r \<noteq> ob_id j \<Longrightarrow> r \<in> set (apply_result j out now rs)"
  by (auto simp: apply_result_def Let_def updateJobStatus_def updateJobForRetry_def image_iff
      split: handler_outcome.splits)

lemma apply_result_status:
  "r' \<in> set (apply_result j out now rs) \<Longrightarrow>
     (r' \<in> set rs \<and> ob_id r' \<noteq> ob_id j) \<or> (ob_id r' = ob_id j \<and> ob_status r' \<noteq> Running)"
  by (auto simp: apply_result_def Let_def updateJobStatus_def updateJobForRetry_def
      split: handler_outcome.splits if_splits)

lemma e_inv_cases:
  "e_inv q \<Longrightarrow> nextJob q = None \<Longrightarrow>
     activeJobs q = [] \<and> \<not> isProcessing q \<and> (\<forall>r \<in> set (rows q). ob_status r \<noteq> Running)"
  "e_inv q \<Longrightarrow> nextJob q = Some j \<Longrightarrow>
     activeJobs q = [ob_id j] \<and> isProcessing q \<and> (\<exists>r \<in> set (rows q). ob_id r = ob_id j) \<and>
     (\<forall>r \<in> set (rows q). (ob_status r = Running) = (ob_id r = ob_id j))"
  "e_inv q \<Longrightarrow> distinct (map ob_id (rows q)) \<and> distinct (map idempotency_key (rows q))"
  by (simp_all add: e_inv_def list_all_iff list_ex_iff)

lemma e_invI_None:
  "distinct (map ob_id (rows q)) \<Longrightarrow> distinct (map idempotency_key (rows q)) \<Longrightarrow>
   nextJob q = None \<Longrightarrow> activeJobs q = [] \<Longrightarrow> \<not> isProcessing q \<Longrightarrow>
   (\<And>r. r \<in> set (rows q) \<Longrightarrow> ob_status r \<noteq> Running) \<Longrightarrow> e_inv q"
  by (simp add: e_inv_def list_all_iff)

lemma e_invI_Some:
  "distinct (map ob_id (rows q)) \<Longrightarrow> distinct (map idempotency_key (rows q)) \<Longrightarrow>
   nextJob q = Some j \<Longrightarrow> activeJobs q = [ob_id j] \<Longrightarrow> isProcessing q \<Longrightarrow>
   (\<exists>r \<in> set (rows q). ob_id r = ob_id j) \<Longrightarrow>
   (\<And>r. r \<in> set (rows q) \<Longrightarrow> (ob_status r = Running) = (ob_id r = ob_id j)) \<Longrightarrow> e_inv q"
  by (simp add: e_inv_def list_all_iff list_ex_iff)

lemma e_inv_rows_append:
  assumes "e_inv q" "ob_status r = Queued" "ob_id r \<notin> ob_id ` set (rows q)"
    "idempotency_key r \<notin> idempotency_key ` set (rows q)"
  shows "e_inv (q\<lparr>rows := rows q @ [r]\<rparr>)"
proof (cases "nextJob q")
  case None
  from e_inv_cases(1)[OF assms(1) None] e_inv_cases(3)[OF assms(1)] assms(2-4) None
  show ?thesis by (intro e_invI_None) auto
next
  case (Some j)
  note c = e_inv_cases(2)[OF assms(1) Some]
  from c obtain r0 where "r0 \<in> set (rows q)" "ob_id r0 = ob_id j" by blast
  then have "ob_id j \<in> ob_id ` set (rows q)" by (metis imageI)
  with assms(3) have ne: "ob_id r \<noteq> ob_id j" by auto
  from c e_inv_cases(3)[OF assms(1)] assms(2-4) Some ne
  show ?thesis by (intro e_invI_Some[where j=j]) auto
qed

lemma e_inv_addJob:
  assumes "e_inv q" "ob_status jobData = Queued"
  shows "e_inv (snd (addJob jobData newId now q))"
proof (cases "getJobByIdempotencyKey (idempotency_key jobData) (rows q)")
  case (Some a)
  with assms show ?thesis by (simp add: addJob_def)
next
  case None
  let ?job = "jobData\<lparr>ob_id := newId, created_at := now, updated_at := now\<rparr>"
  show ?thesis
  proof (cases "insert_row ?job (rows q)")
    case (Inl msg)
    with None assms show ?thesis by (simp add: addJob_def)
  next
    case (Inr rs)
    then have rs: "rs = rows q @ [?job\<lparr>error_message := None, last_attempt_at := None\<rparr>]"
      and fresh: "newId \<notin> ob_id ` set (rows q)" "idempotency_key jobData \<notin> idempotency_key ` set (rows q)"
      by (auto simp: insert_row_def split: if_splits)
    have q': "snd (addJob jobData newId now q) = q\<lparr>rows := rs\<rparr>"
      using None Inr by (simp add: addJob_def)
    show ?thesis
      unfolding q' rs using assms fresh by (intro e_inv_rows_append) simp_all
  qed
qed

lemma e_inv_retryJob:
  assumes "e_inv q"
  shows "e_inv (snd (retryJob i now q))"
proof (cases "getJobById i (rows q)")
  case None
  with assms show ?thesis by (simp add: retryJob_def)
next
  case (Some job)
  show ?thesis
  proof (cases "ob_status job = Dead")
    case False
    with Some assms show ?thesis by (simp add: retryJob_def)
  next
    case True
    from getJobById_SomeD[OF Some] have job: "job \<in> set (rows q)" "ob_id job = i" by simp_all
    let ?rs = "updateJobForRetry i 0 now None now (rows q)"
    have q': "snd (retryJob i now q) = q\<lparr>rows := ?rs\<rparr>"
      using Some True by (simp add: retryJob_def)
    have uniq: "\<And>r. r \<in> set (rows q) \<Longrightarrow> ob_id r = i \<Longrightarrow> r = job"
      using e_inv_cases(3)[OF assms] job by (auto simp: distinct_map inj_on_def)
    have d: "distinct (map ob_id ?rs)" "distinct (map idempotency_key ?rs)"
      using e_inv_cases(3)[OF assms] by simp_all
    have mem: "\<And>r'. r' \<in> set ?rs \<Longrightarrow>
        (r' \<in> set (rows q) \<and> ob_id r' \<noteq> i) \<or> (ob_id r' = i \<and> ob_status r' = Queued)"
      by (auto simp: updateJobForRetry_def)
    show ?thesis
    proof (cases "nextJob q")
      case None
      note c = e_inv_cases(1)[OF assms None]
      show ?thesis unfolding q'
      proof (rule e_invI_None)
        fix r assume "r \<in> set (rows (q\<lparr>rows := ?rs\<rparr>))"
        then have "r \<in> set ?rs" by simp
        from mem[OF this] c show "ob_status r \<noteq> Running" by auto
      qed (use d None c in simp_all)
    next
      case (Some j)
      note c = e_inv_cases(2)[OF assms Some]
      have ne: "ob_id j \<noteq> i"
      proof
        assume "ob_id j = i"
        with c job have "ob_status job = Running" by auto
        with True show False by simp
      qed
      show ?thesis unfolding q'
      proof (rule e_invI_Some[where j=j])
        fix r assume "r \<in> set (rows (q\<lparr>rows := ?rs\<rparr>))"
        then have "r \<in> set ?rs" by simp
        from mem[OF this] c ne show "(ob_status r = Running) = (ob_id r = ob_id j)" by auto
      next
        from c obtain r where "r \<in> set (rows q)" "ob_id r = ob_id j" by auto
        then have "ob_id j \<in> set (map ob_id ?rs)" by (simp add: image_iff) metis
        then show "\<exists>r\<in>set (rows (q\<lparr>rows := ?rs\<rparr>)). ob_id r = ob_id j" by (auto simp del: updateJobForRetry_ids)
      qed (use d Some c in simp_all)
    qed
  qed
qed

lemma e_inv_clearDeadJobs:
  assumes "e_inv q"
  shows "e_inv (snd (clearDeadJobs q))"
proof (cases "nextJob q")
  case None
  note c = e_inv_cases(1)[OF assms None]
  show ?thesis unfolding clearDeadJobs_def snd_conv
    by (rule e_invI_None) (use c None e_inv_cases(3)[OF assms] in \<open>simp_all add: distinct_map_filter\<close>)
next
  case (Some j)
  note c = e_inv_cases(2)[OF assms Some]
  from c obtain r where r: "r \<in> set (rows q)" "ob_id r = ob_id j" by auto
  with c have "ob_status r = Running" by auto
  with r have ex: "\<exists>r \<in> set (filter (\<lambda>r. ob_status r \<noteq> Dead) (rows q)). ob_id r = ob_id j"
    by auto
  show ?thesis unfolding clearDeadJobs_def snd_conv
    by (rule e_invI_Some[where j=j])
       (use c Some ex e_inv_cases(3)[OF assms] in \<open>simp_all add: distinct_map_filter\<close>)
qed

lemma e_inv_tick:
  assumes "e_inv q"
  shows "e_inv (tick now q)"
proof (cases "\<not> isProcessing q \<and> length (activeJobs q) < maxConcurrency")
  case False
  with assms show ?thesis by (auto simp: tick_def)
next
  case True
  show ?thesis
  proof (cases "getNextJobToProcess now (rows q)")
    case None
    with True assms show ?thesis by (simp add: tick_def)
  next
    case (Some j)
    from getNext_SomeD(1)[OF Some] have jin: "j \<in> set (rows q)" .
    have nj: "nextJob q = None"
    proof (cases "nextJob q")
      case (Some j')
      from e_inv_cases(2)[OF assms Some] True show ?thesis by simp
    qed simp
    note c = e_inv_cases(1)[OF assms nj]
    let ?rs = "updateJobStatus (ob_id j) Running None now (rows q)"
    have q': "tick now q = q\<lparr>isProcessing := True,
               activeJobs := List.insert (ob_id j) (activeJobs q),
               rows := ?rs, nextJob := Some j\<rparr>"
      using True Some by (simp add: tick_def)
    have mem: "\<And>r'. r' \<in> set ?rs \<Longrightarrow>
        (r' \<in> set (rows q) \<and> ob_id r' \<noteq> ob_id j) \<or> (ob_id r' = ob_id j \<and> ob_status r' = Running)"
      by (auto simp: updateJobStatus_def)
    show ?thesis unfolding q'
    proof (rule e_invI_Some[where j=j])
      fix r assume "r \<in> set (rows (q\<lparr>isProcessing := True,
               activeJobs := List.insert (ob_id j) (activeJobs q),
               rows := ?rs, nextJob := Some j\<rparr>))"
      then have "r \<in> set ?rs" by simp
      from mem[OF this] c show "(ob_status r = Running) = (ob_id r = ob_id j)" by auto
    next
      from jin have "ob_id j \<in> set (map ob_id ?rs)" by (simp add: image_iff) metis
      then show "\<exists>r\<in>set (rows (q\<lparr>isProcessing := True,
               activeJobs := List.insert (ob_id j) (activeJobs q),
               rows := ?rs, nextJob := Some j\<rparr>)). ob_id r = ob_id j"
        by (auto simp del: updateJobStatus_ids)
    qed (use c e_inv_cases(3)[OF assms] in simp_all)
  qed
qed

lemma e_inv_settle:
  assumes "e_inv q"
  shows "e_inv (settle out now q)"
proof (cases "nextJob q")
  case None
  with assms show ?thesis by (simp add: settle_def)
next
  case (Some j)
  note c = e_inv_cases(2)[OF assms Some]
  have q': "settle out now q = q\<lparr>rows := apply_result j out now (rows q),
            activeJobs := removeAll (ob_id j) (activeJobs q),
            isProcessing := False, nextJob := None\<rparr>"
    using Some by (simp add: settle_def)
  show ?thesis unfolding q'
  proof (rule e_invI_None)
    fix r' assume "r' \<in> set (rows (q\<lparr>rows := apply_result j out now (rows q),
            activeJobs := removeAll (ob_id j) (activeJobs q),
            isProcessing := False, nextJob := None\<rparr>))"
    then have "r' \<in> set (apply_result j out now (rows q))" by simp
    from apply_result_status[OF this] c show "ob_status r' \<noteq> Running" by auto
  qed (use c e_inv_cases(3)[OF assms] in simp_all)
qed

lemma e_inv_step:
  "e_inv q \<Longrightarrow> e_from_caller ev \<Longrightarrow> e_inv (e_step q ev)"
  by (cases ev) (simp_all add: e_inv_addJob e_inv_retryJob e_inv_clearDeadJobs e_inv_tick e_inv_settle)

lemma e_inv_run:
  "e_inv q \<Longrightarrow> list_all e_from_caller evs \<Longrightarrow> e_inv (e_run evs q)"
  unfolding e_run_def
  by (induction evs arbitrary: q) (simp_all add: e_inv_step)

lemma e_inv_empty: "e_inv empty_equeue"
  by (simp add: e_inv_def empty_equeue_def)

subsection \<open>Attempts, finished jobs and one run of a job in the outbox\<close>

lemma e_bounded_step:
  assumes "e_bounded q" "e_from_caller ev"
  shows "e_bounded (e_step q ev)"
proof (cases ev)
  case (AddJob jobData newId now)
  with assms show ?thesis
    by (auto simp: e_bounded_def addJob_def insert_row_def Let_def list_all_iff
        split: option.splits sum.splits if_splits)
next
  case (RetryJob i now)
  with assms show ?thesis
    by (auto simp: e_bounded_def retryJob_def updateJobForRetry_def list_all_iff
        split: option.splits)
next
  case ClearDeadJobs
  with assms show ?thesis by (auto simp: e_bounded_def clearDeadJobs_def list_all_iff)
next
  case (Tick now)
  with assms show ?thesis
    by (auto simp: e_bounded_def tick_def updateJobStatus_def list_all_iff split: option.splits)
next
  case (Settle out now)
  with assms show ?thesis
    by (auto simp: e_bounded_def settle_def apply_result_def updateJobStatus_def
        updateJobForRetry_def Let_def list_all_iff split: option.splits handler_outcome.splits)
qed

lemma e_bounded_run:
  "e_bounded q \<Longrightarrow> list_all e_from_caller evs \<Longrightarrow> e_bounded (e_run evs q)"
  unfolding e_run_def
  by (induction evs arbitrary: q) (simp_all add: e_bounded_step)

lemma e_succeeded_step:
  assumes "e_inv q" "J \<in> set (rows q)" "ob_status J = Succeeded"
  shows "J \<in> set (rows (e_step q ev))"
proof (cases ev)
  case (AddJob jobData newId now)
  with assms show ?thesis
    by (auto simp: addJob_def insert_row_def Let_def split: option.splits sum.splits if_splits)
next
  case (RetryJob i now)
  show ?thesis
  proof (cases "getJobById i (rows q)")
    case None
    with RetryJob assms show ?thesis by (simp add: retryJob_def)
  next
    case (Some job)
    from getJobById_SomeD[OF Some] have job: "job \<in> set (rows q)" "ob_id job = i" by simp_all
    show ?thesis
    proof (cases "ob_status job = Dead")
      case False
      with Some RetryJob assms show ?thesis by (simp add: retryJob_def)
    next
      case True
      have "ob_id J \<noteq> i"
      proof
        assume "ob_id J = i"
        with job assms(2) e_inv_cases(3)[OF assms(1)] have "J = job"
          by (auto simp: distinct_map inj_on_def)
        with True assms(3) show False by simp
      qed
      with assms(2) have "J \<in> set (updateJobForRetry i 0 now None now (rows q))"
        by (auto simp: updateJobForRetry_def image_iff)
      with Some True RetryJob show ?thesis by (simp add: retryJob_def)
    qed
  qed
next
  case ClearDeadJobs
  with assms show ?thesis by (simp add: clearDeadJobs_def)
next
  case (Tick now)
  show ?thesis
  proof (cases "tick now q = q")
    case True
    with Tick assms show ?thesis by simp
  next
    case False
    then obtain j where j: "getNextJobToProcess now (rows q) = Some j"
      and q': "tick now q = q\<lparr>isProcessing := True,
               activeJobs := List.insert (ob_id j) (activeJobs q),
               rows := updateJobStatus (ob_id j) Running None now (rows q),
               nextJob := Some j\<rparr>"
      by (auto simp: tick_def split: if_splits option.splits)
    from getNext_SomeD(1,2)[OF j] have jq: "j \<in> set (rows q)" "ob_status j = Queued"
      by (simp_all add: is_due_def)
    have "ob_id J \<noteq> ob_id j"
    proof
      assume "ob_id J = ob_id j"
      with jq assms(2) e_inv_cases(3)[OF assms(1)] have "J = j"
        by (auto simp: distinct_map inj_on_def)
      with jq assms(3) show False by simp
    qed
    with assms(2) have "J \<in> set (updateJobStatus (ob_id j) Running None now (rows q))"
      by (auto simp: updateJobStatus_def image_iff)
    with Tick q' show ?thesis by simp
  qed
next
  case (Settle out now)
  show ?thesis
  proof (cases "nextJob q")
    case None
    with Settle assms show ?thesis by (simp add: settle_def)
  next
    case (Some j)
    from e_inv_cases(2)[OF assms(1) Some] assms(2,3) have "ob_id J \<noteq> ob_id j" by auto
    from apply_result_other[OF assms(2) this] Some Settle show ?thesis
      by (simp add: settle_def)
  qed
qed

lemma e_succeeded_run:
  "e_inv q \<Longrightarrow> list_all e_from_caller evs \<Longrightarrow> J \<in> set (rows q) \<Longrightarrow> ob_status J = Succeeded \<Longrightarrow>
     J \<in> set (rows (e_run evs q))"
  unfolding e_run_def
proof (induction evs arbitrary: q)
  case Nil then show ?case by simp
next
  case (Cons ev evs)
  from Cons.prems have "e_inv (e_step q ev)" "J \<in> set (rows (e_step q ev))"
    by (simp_all add: e_inv_step e_succeeded_step)
  with Cons.IH Cons.prems show ?case by simp
qed

text \<open>\<^verbatim>\<open>processNextJob\<close> on an idle queue.\<close>

lemma e_tick_idle:
  assumes "\<not> isProcessing q" "activeJobs q = []" "getNextJobToProcess t0 (rows q) = Some j"
  shows "tick t0 q = q\<lparr>isProcessing := True, activeJobs := [ob_id j],
               rows := updateJobStatus (ob_id j) Running None t0 (rows q), nextJob := Some j\<rparr>"
  using assms by (simp add: tick_def maxConcurrency_def)

lemma getJobById_modify:
  assumes "getJobById i rs = Some r" "\<And>x. ob_id (f x) = ob_id x"
  shows "getJobById i (map (\<lambda>x. if ob_id x = i then f x else x) rs) = Some (f r)"
proof -
  have "getJobById i (map (\<lambda>x. if ob_id x = i then f x else x) rs) =
        map_option (\<lambda>x. if ob_id x = i then f x else x) (getJobById i rs)"
    by (rule getJobById_map) (simp add: assms(2))
  with assms(1) getJobById_SomeD[OF assms(1)] show ?thesis by simp
qed

lemma getJobById_updateJobStatus:
  "getJobById i rs = Some r \<Longrightarrow>
   getJobById i (updateJobStatus i st e now rs) =
     Some (r\<lparr>ob_status := st, updated_at := now, error_message := or_null e,
              last_attempt_at := Some now\<rparr>)"
  unfolding updateJobStatus_def by (rule getJobById_modify) simp_all

lemma getJobById_updateJobForRetry:
  "getJobById i rs = Some r \<Longrightarrow>
   getJobById i (updateJobForRetry i n t e now rs) =
     Some (r\<lparr>ob_status := Queued, ob_attempts := n, next_run_at := t, updated_at := now,
              error_message := or_null e, last_attempt_at := Some now\<rparr>)"
  unfolding updateJobForRetry_def by (rule getJobById_modify) simp_all

lemma e_processNextJob_row:
  assumes "\<not> isProcessing q" "activeJobs q = []" "distinct (map ob_id (rows q))"
    and "getNextJobToProcess t0 (rows q) = Some j"
  shows "getJobById (ob_id j) (rows (processNextJob t0 out t1 q)) =
     Some (case out of
        Resolved \<Rightarrow> j\<lparr>ob_status := Succeeded, updated_at := t1, error_message := None,
                      last_attempt_at := Some t1\<rparr>
      | Threw m \<Rightarrow>
          if isRetryableError m \<and> ob_attempts j < length backoffSchedule
          then j\<lparr>ob_status := Queued, ob_attempts := ob_attempts j + 1,
                 next_run_at := t1 + backoffSchedule ! ob_attempts j * 1000,
                 updated_at := t1, error_message := or_null (Some m), last_attempt_at := Some t1\<rparr>
          else j\<lparr>ob_status := Dead, updated_at := t1, error_message := or_null (Some m),
                 last_attempt_at := Some t1\<rparr>)"
proof -
  from getNext_SomeD(1)[OF assms(4)] have jin: "j \<in> set (rows q)" .
  have g0: "getJobById (ob_id j) (rows q) = Some j"
    using assms(3) jin by (rule getJobById_distinct)
  let ?rs1 = "updateJobStatus (ob_id j) Running None t0 (rows q)"
  note g1 = getJobById_updateJobStatus[OF g0, of Running None t0]
  have rows': "rows (processNextJob t0 out t1 q) = apply_result j out t1 ?rs1"
    by (simp add: processNextJob_def e_tick_idle[OF assms(1,2,4)] settle_def)
  show ?thesis
  proof (cases out)
    case Resolved
    have "getJobById (ob_id j) (apply_result j Resolved t1 ?rs1) =
        Some (j\<lparr>ob_status := Succeeded, updated_at := t1, error_message := None,
                      last_attempt_at := Some t1\<rparr>)"
      by (simp add: apply_result_def getJobById_updateJobStatus[OF g1] or_null_def)
    with Resolved rows' show ?thesis by simp
  next
    case (Threw m)
    show ?thesis
    proof (cases "isRetryableError m \<and> ob_attempts j < length backoffSchedule")
      case True
      then have "getJobById (ob_id j) (apply_result j (Threw m) t1 ?rs1) =
          Some (j\<lparr>ob_status := Queued, ob_attempts := ob_attempts j + 1,
                 next_run_at := t1 + backoffSchedule ! ob_attempts j * 1000,
                 updated_at := t1, error_message := or_null (Some m), last_attempt_at := Some t1\<rparr>)"
        by (simp add: apply_result_def Let_def getJobById_updateJobForRetry[OF g1])
      with True Threw rows' show ?thesis by simp
    next
      case False
      then have "getJobById (ob_id j) (apply_result j (Threw m) t1 ?rs1) =
          Some (j\<lparr>ob_status := Dead, updated_at := t1, error_message := or_null (Some m),
                 last_attempt_at := Some t1\<rparr>)"
        by (auto simp add: apply_result_def getJobById_updateJobStatus[OF g1])
      with False Threw rows' show ?thesis by auto
    qed
  qed
qed

subsection \<open>Statistics\<close>

lemma status_partition:
  "length (filter (\<lambda>x. f x = Queued) xs) + length (filter (\<lambda>x. f x = Running) xs) +
   length (filter (\<lambda>x. f x = Succeeded) xs) + length (filter (\<lambda>x. f x = Failed) xs) +
   length (filter (\<lambda>x. f x = Dead) xs) = length xs"
proof (induction xs)
  case Nil then show ?case by simp
next
  case (Cons a xs)
  then show ?case by (cases "f a") simp_all
qed

lemma count_list_map_status:
  "count_list (map f rs) s = length (filter (\<lambda>r. f r = s) rs)"
  by (induction rs) simp_all

lemma group_total:
  "sum_list (map (\<lambda>s. length (filter (\<lambda>r. f r = s) rs)) (remdups (map f rs))) = length rs"
proof -
  let ?xs = "map f rs"
  have eq: "count_list ?xs = (\<lambda>s. length (filter (\<lambda>r. f r = s) rs))"
    by (rule ext) (rule count_list_map_status)
  have "sum_list (map (count_list ?xs) (remdups ?xs)) = sum (count_list ?xs) (set (remdups ?xs))"
    by (rule sum_list_distinct_conv_sum_set) simp
  also have "\<dots> = length ?xs"
    by (simp add: sum_count_set)
  finally show ?thesis unfolding eq by simp
qed

lemma stats_fold_total:
  "qs_total (foldl (\<lambda>st (s, n). set_count s n (st\<lparr>qs_total := qs_total st + n\<rparr>)) st0 gs) =
     qs_total st0 + sum_list (map snd gs)"
proof (induction gs arbitrary: st0)
  case Nil then show ?case by simp
next
  case (Cons g gs)
  obtain s n where g: "g = (s, n)" by (cases g)
  show ?case unfolding g by (cases s) (simp_all add: Cons.IH)
qed

lemma stats_fold_field:
  assumes "\<And>s n st. get (set_count s n st) = (if s = s0 then n else get st)"
    and "\<And>t st. get (st\<lparr>qs_total := t\<rparr>) = get st"
  shows "get (foldl (\<lambda>st (s, n). set_count s n (st\<lparr>qs_total := qs_total st + n\<rparr>)) st0
              (map (\<lambda>s. (s, c s)) ss)) =
         (if s0 \<in> set ss then c s0 else get st0)"
proof (induction ss arbitrary: st0)
  case Nil then show ?case by simp
next
  case (Cons s ss)
  show ?case by (simp add: Cons.IH assms)
qed

lemma set_count_get:
  "qs_queued (set_count s n st) = (if s = Queued then n else qs_queued st)"
  "qs_running (set_count s n st) = (if s = Running then n else qs_running st)"
  "qs_succeeded (set_count s n st) = (if s = Succeeded then n else qs_succeeded st)"
  "qs_failed (set_count s n st) = (if s = Failed then n else qs_failed st)"
  "qs_dead (set_count s n st) = (if s = Dead then n else qs_dead st)"
  by (cases s; simp)+

lemma count_absent:
  "s \<notin> set (remdups (map f rs)) \<Longrightarrow> length (filter (\<lambda>r. f r = s) rs) = 0"
  by (auto simp: filter_empty_conv)

lemma e_getStats_queued:
  "qs_queued (getStats q) = length (filter (\<lambda>r. ob_status r = Queued) (rows q))"
proof -
  have "qs_queued (getStats q) =
    (if Queued \<in> set (remdups (map ob_status (rows q)))
     then length (filter (\<lambda>r. ob_status r = Queued) (rows q)) else qs_queued zero_stats)"
    unfolding getStats_def group_by_status_def
    by (rule stats_fold_field) (simp_all add: set_count_get)
  then show ?thesis
    using count_absent[of Queued ob_status "rows q"] by (simp add: zero_stats_def del: set_remdups)
qed

lemma e_getStats_running:
  "qs_running (getStats q) = length (filter (\<lambda>r. ob_status r = Running) (rows q))"
proof -
  have "qs_running (getStats q) =
    (if Running \<in> set (remdups (map ob_status (rows q)))
     then length (filter (\<lambda>r. ob_status r = Running) (rows q)) else qs_running zero_stats)"
    unfolding getStats_def group_by_status_def
    by (rule stats_fold_field) (simp_all add: set_count_get)
  then show ?thesis
    using count_absent[of Running ob_status "rows q"] by (simp add: zero_stats_def del: set_remdups)
qed

lemma e_getStats_succeeded:
  "qs_succeeded (getStats q) = length (filter (\<lambda>r. ob_status r = Succeeded) (rows q))"
proof -
  have "qs_succeeded (getStats q) =
    (if Succeeded \<in> set (remdups (map ob_status (rows q)))
     then length (filter (\<lambda>r. ob_status r = Succeeded) (rows q)) else qs_succeeded zero_stats)"
    unfolding getStats_def group_by_status_def
    by (rule stats_fold_field) (simp_all add: set_count_get)
  then show ?thesis
    using count_absent[of Succeeded ob_status "rows q"] by (simp add: zero_stats_def del: set_remdups)
qed

lemma e_getStats_failed:
  "qs_failed (getStats q) = length (filter (\<lambda>r. ob_status r = Failed) (rows q))"
proof -
  have "qs_failed (getStats q) =
    (if Failed \<in> set (remdups (map ob_status (rows q)))
     then length (filter (\<lambda>r. ob_status r = Failed) (rows q)) else qs_failed zero_stats)"
    unfolding getStats_def group_by_status_def
    by (rule stats_fold_field) (simp_all add: set_count_get)
  then show ?thesis
    using count_absent[of Failed ob_status "rows q"] by (simp add: zero_stats_def del: set_remdups)
qed

lemma e_getStats_dead:
  "qs_dead (getStats q) = length (filter (\<lambda>r. ob_status r = Dead) (rows q))"
proof -
  have "qs_dead (getStats q) =
    (if Dead \<in> set (remdups (map ob_status (rows q)))
     then length (filter (\<lambda>r. ob_status r = Dead) (rows q)) else qs_dead zero_stats)"
    unfolding getStats_def group_by_status_def
    by (rule stats_fold_field) (simp_all add: set_count_get)
  then show ?thesis
    using count_absent[of Dead ob_status "rows q"] by (simp add: zero_stats_def del: set_remdups)
qed

lemma e_getStats_total: "qs_total (getStats q) = length (rows q)"
  unfolding getStats_def group_by_status_def
  by (simp add: stats_fold_total zero_stats_def comp_def group_total)

lemma r_stats_fold:
  "js_total (foldl (\<lambda>st job. bump (jb_status job) st) st0 js) = js_total st0"
  "js_queued (foldl (\<lambda>st job. bump (jb_status job) st) st0 js) =
     js_queued st0 + length (filter (\<lambda>j. jb_status j = Queued) js)"
  "js_running (foldl (\<lambda>st job. bump (jb_status job) st) st0 js) =
     js_running st0 + length (filter (\<lambda>j. jb_status j = Running) js)"
  "js_succeeded (foldl (\<lambda>st job. bump (jb_status job) st) st0 js) =
     js_succeeded st0 + length (filter (\<lambda>j. jb_status j = Succeeded) js)"
  "js_failed (foldl (\<lambda>st job. bump (jb_status job) st) st0 js) =
     js_failed st0 + length (filter (\<lambda>j. jb_status j = Failed) js)"
  "js_dead (foldl (\<lambda>st job. bump (jb_status job) st) st0 js) =
     js_dead st0 + length (filter (\<lambda>j. jb_status j = Dead) js)"
proof (induction js arbitrary: st0)
  case Nil
  { case 1 show ?case by simp next case 2 show ?case by simp next case 3 show ?case by simp
    next case 4 show ?case by simp next case 5 show ?case by simp next case 6 show ?case by simp }
next
  case (Cons a js)
  { case 1 show ?case by (cases "jb_status a") (simp_all add: Cons.IH)
    next case 2 show ?case by (cases "jb_status a") (simp_all add: Cons.IH)
    next case 3 show ?case by (cases "jb_status a") (simp_all add: Cons.IH)
    next case 4 show ?case by (cases "jb_status a") (simp_all add: Cons.IH)
    next case 5 show ?case by (cases "jb_status a") (simp_all add: Cons.IH)
    next case 6 show ?case by (cases "jb_status a") (simp_all add: Cons.IH) }
qed

subsection \<open>The map and the loop of the renderer's queue\<close>

lemma jobs_get_SomeD: "jobs_get i js = Some j \<Longrightarrow> j \<in> set js \<and> jb_id j = i"
  by (auto simp: jobs_get_def find_Some_iff)

lemma jobs_get_None: "jobs_get i js = None \<longleftrightarrow> i \<notin> jb_id ` set js"
  by (auto simp: jobs_get_def find_None_iff)

lemma jobs_get_distinct:
  "distinct (map jb_id js) \<Longrightarrow> j \<in> set js \<Longrightarrow> jobs_get (jb_id j) js = Some j"
proof (induction js)
  case Nil then show ?case by simp
next
  case (Cons a js)
  then show ?case by (auto simp: jobs_get_def image_iff)
qed

lemma jobs_modify_mem:
  "x \<in> set (jobs_modify i f js) \<Longrightarrow>
     (x \<in> set js \<and> jb_id x \<noteq> i) \<or> (\<exists>y \<in> set js. jb_id y = i \<and> x = f y)"
  by (auto simp: jobs_modify_def)

lemma jobs_modify_keep_ids:
  "(\<And>j. jb_id (f j) = jb_id j) \<Longrightarrow> map jb_id (jobs_modify i f js) = map jb_id js"
  by (induction js) (simp_all add: jobs_modify_def)

lemma jobs_modify_other:
  "x \<in> set js \<Longrightarrow> jb_id x \<noteq> i \<Longrightarrow> x \<in> set (jobs_modify i f js)"
  by (auto simp: jobs_modify_def image_iff)

lemma jobs_get_modify:
  assumes "jobs_get i js = Some j" "\<And>x. jb_id (f x) = jb_id x"
  shows "jobs_get i (jobs_modify i f js) = Some (f j)"
  using assms(1)
proof (induction js)
  case Nil then show ?case by (simp add: jobs_get_def)
next
  case (Cons a js)
  then show ?case by (auto simp: jobs_get_def jobs_modify_def assms(2))
qed

lemma jobs_set_fresh:
  assumes "jb_id job \<notin> jb_id ` set js"
  shows "jobs_set job js = js @ [job]"
proof -
  from assms have "\<not> (\<exists>j \<in> set js. jb_id j = jb_id job)" by (metis imageI)
  then show ?thesis by (simp add: jobs_set_def)
qed

lemma r_inv_parts:
  "r_inv q \<Longrightarrow> distinct (map jb_id (jobs q)) \<and> distinct (pass_rest q) \<and>
     (\<forall>j \<in> set (jobs q). jb_id j \<in> set (pass_rest q) \<longrightarrow> jb_status j = Queued)"
  "r_inv q \<Longrightarrow> pass_job q = None \<Longrightarrow>
     running q = [] \<and> \<not> rq_isProcessing q \<and> pass_rest q = [] \<and>
     (\<forall>j \<in> set (jobs q). jb_status j \<noteq> Running)"
  "r_inv q \<Longrightarrow> pass_job q = Some i \<Longrightarrow>
     running q = [i] \<and> rq_isProcessing q \<and> 1 \<le> concurrency (config q) \<and>
     (\<exists>j \<in> set (jobs q). jb_id j = i) \<and>
     (\<forall>j \<in> set (jobs q). (jb_status j = Running) = (jb_id j = i))"
  by (simp_all add: r_inv_def list_all_iff list_ex_iff)

lemma r_invI_None:
  "distinct (map jb_id (jobs q)) \<Longrightarrow> pass_job q = None \<Longrightarrow> running q = [] \<Longrightarrow>
   \<not> rq_isProcessing q \<Longrightarrow> pass_rest q = [] \<Longrightarrow>
   (\<And>j. j \<in> set (jobs q) \<Longrightarrow> jb_status j \<noteq> Running) \<Longrightarrow> r_inv q"
  by (simp add: r_inv_def list_all_iff)

lemma r_invI_Some:
  "distinct (map jb_id (jobs q)) \<Longrightarrow> distinct (pass_rest q) \<Longrightarrow>
   (\<And>j. j \<in> set (jobs q) \<Longrightarrow> jb_id j \<in> set (pass_rest q) \<Longrightarrow> jb_status j = Queued) \<Longrightarrow>
   pass_job q = Some i \<Longrightarrow> running q = [i] \<Longrightarrow> rq_isProcessing q \<Longrightarrow>
   1 \<le> concurrency (config q) \<Longrightarrow> (\<exists>j \<in> set (jobs q). jb_id j = i) \<Longrightarrow>
   (\<And>j. j \<in> set (jobs q) \<Longrightarrow> (jb_status j = Running) = (jb_id j = i)) \<Longrightarrow> r_inv q"
  by (simp add: r_inv_def list_all_iff list_ex_iff)

text \<open>The loop, from a state with no awaited handler inside an open pass.\<close>

lemma r_inv_dispatch_loop:
  assumes "distinct (map jb_id (jobs q))" "distinct rest"
    and "\<forall>j \<in> set (jobs q). jb_id j \<in> set rest \<longrightarrow> jb_status j = Queued"
    and "pass_job q = None" "running q = []" "rq_isProcessing q"
    and "\<forall>j \<in> set (jobs q). jb_status j \<noteq> Running"
  shows "r_inv (dispatch_loop t rest q)"
  using assms
proof (induction rest)
  case Nil
  then show ?case by (intro r_invI_None) (simp_all add: end_pass_def)
next
  case (Cons i rest)
  show ?case
  proof (cases "length (running q) \<ge> concurrency (config q)")
    case True
    with Cons.prems show ?thesis by (intro r_invI_None) (simp_all add: end_pass_def)
  next
    case False
    with Cons.prems have conc: "1 \<le> concurrency (config q)" by simp
    have IH: "r_inv (dispatch_loop t rest q)"
      using Cons.prems by (intro Cons.IH) simp_all
    show ?thesis
    proof (cases "jobs_get i (jobs q)")
      case None
      with False IH show ?thesis by simp
    next
      case (Some job)
      from jobs_get_SomeD[OF Some] have job: "job \<in> set (jobs q)" "jb_id job = i" by simp_all
      show ?thesis
      proof (cases "nextRunAt job > pass_now q \<or> i \<in> set (running q)")
        case True
        with False Some IH show ?thesis by auto
      next
        case nd: False
        let ?js = "jobs_modify i (\<lambda>j. j\<lparr>jb_status := Running, updatedAt := t\<rparr>) (jobs q)"
        let ?q' = "q\<lparr>running := running q @ [i], jobs := ?js, pass_rest := rest, pass_job := Some i\<rparr>"
        have eq: "dispatch_loop t (i # rest) q = ?q'"
          using False Some nd by simp
        have ids: "map jb_id ?js = map jb_id (jobs q)"
          by (rule jobs_modify_keep_ids) simp
        have mem: "\<And>x. x \<in> set ?js \<Longrightarrow>
            (x \<in> set (jobs q) \<and> jb_id x \<noteq> i) \<or> (jb_id x = i \<and> jb_status x = Running)"
          by (drule jobs_modify_mem) auto
        show ?thesis unfolding eq
        proof (rule r_invI_Some[where i=i])
          show "distinct (map jb_id (jobs ?q'))" using Cons.prems(1) ids by simp
          show "distinct (pass_rest ?q')" using Cons.prems(2) by simp
          show "pass_job ?q' = Some i" by simp
          show "running ?q' = [i]" using Cons.prems(5) by simp
          show "rq_isProcessing ?q'" using Cons.prems(6) by simp
          show "1 \<le> concurrency (config ?q')" using conc by simp
          have "i \<in> set (map jb_id ?js)" unfolding ids using job by (simp add: image_iff) metis
          then show "\<exists>j \<in> set (jobs ?q'). jb_id j = i" by auto
        next
          fix j assume "j \<in> set (jobs ?q')" "jb_id j \<in> set (pass_rest ?q')"
          then have j: "j \<in> set ?js" "jb_id j \<in> set rest" by simp_all
          from Cons.prems(2) j(2) have "jb_id j \<noteq> i" by auto
          with mem[OF j(1)] have "j \<in> set (jobs q)" by auto
          with Cons.prems(3) j(2) show "jb_status j = Queued" by simp
        next
          fix j assume "j \<in> set (jobs ?q')"
          then have "j \<in> set ?js" by simp
          from mem[OF this] Cons.prems(7) show "(jb_status j = Running) = (jb_id j = i)" by auto
        qed
      qed
    qed
  qed
qed

subsection \<open>The renderer's queue keeps its invariant\<close>

lemma r_addJob_cases:
  "r_addJob ty pl k corr newId now q = (i, q') \<Longrightarrow>
     (q' = q) \<or> (i = newId \<and> q' = q\<lparr>jobs := jobs_set (new_job (config q) ty pl k corr newId now) (jobs q)\<rparr>)"
  by (auto simp: r_addJob_def Let_def split: if_splits)

lemma r_inv_append:
  assumes "r_inv q" "jb_status job = Queued" "jb_id job \<notin> jb_id ` set (jobs q)"
  shows "r_inv (q\<lparr>jobs := jobs q @ [job]\<rparr>)"
proof (cases "pass_job q")
  case None
  from r_inv_parts(1)[OF assms(1)] r_inv_parts(2)[OF assms(1) None] assms(2,3) None
  show ?thesis by (intro r_invI_None) auto
next
  case (Some i)
  note c = r_inv_parts(3)[OF assms(1) Some]
  from c obtain j0 where "j0 \<in> set (jobs q)" "jb_id j0 = i" by blast
  then have "i \<in> jb_id ` set (jobs q)" by (metis imageI)
  with assms(3) have ne: "jb_id job \<noteq> i" by auto
  from r_inv_parts(1)[OF assms(1)] c assms(2,3) Some ne
  show ?thesis by (intro r_invI_Some[where i=i]) auto
qed

lemma r_inv_addJob:
  assumes "r_inv q" "newId \<notin> jb_id ` set (jobs q)"
  shows "r_inv (snd (r_addJob ty pl k corr newId now q))"
proof -
  obtain i q' where r: "r_addJob ty pl k corr newId now q = (i, q')" by (cases "r_addJob ty pl k corr newId now q")
  let ?job = "new_job (config q) ty pl k corr newId now"
  have f: "jb_id ?job \<notin> jb_id ` set (jobs q)" using assms(2) by (simp add: new_job_def)
  from r_addJob_cases[OF r] show ?thesis
  proof
    assume "q' = q" with r assms show ?thesis by simp
  next
    assume "i = newId \<and> q' = q\<lparr>jobs := jobs_set ?job (jobs q)\<rparr>"
    then have "q' = q\<lparr>jobs := jobs q @ [?job]\<rparr>" by (simp add: jobs_set_fresh[OF f])
    moreover have "r_inv (q\<lparr>jobs := jobs q @ [?job]\<rparr>)"
      using assms(1) _ f by (rule r_inv_append) (simp add: new_job_def)
    ultimately show ?thesis using r by simp
  qed
qed

text \<open>A change of a job that is neither running nor (before or after) to be visited.\<close>

lemma r_inv_modify:
  assumes "r_inv q" "jobs_get i (jobs q) = Some job" "jb_status job = Failed"
    and "\<And>j. jb_id (f j) = jb_id j" "jb_status (f job) \<noteq> Running"
  shows "r_inv (q\<lparr>jobs := jobs_modify i f (jobs q)\<rparr>)"
proof -
  from jobs_get_SomeD[OF assms(2)] have job: "job \<in> set (jobs q)" "jb_id job = i" by simp_all
  note p = r_inv_parts(1)[OF assms(1)]
  have uniq: "\<And>y. y \<in> set (jobs q) \<Longrightarrow> jb_id y = i \<Longrightarrow> y = job"
    using p job by (auto simp: distinct_map inj_on_def)
  let ?js = "jobs_modify i f (jobs q)"
  have ids: "map jb_id ?js = map jb_id (jobs q)" by (rule jobs_modify_keep_ids) (rule assms(4))
  have mem: "\<And>x. x \<in> set ?js \<Longrightarrow> (x \<in> set (jobs q) \<and> jb_id x \<noteq> i) \<or> (x = f job \<and> jb_id x = i)"
    using uniq assms(4) by (auto dest!: jobs_modify_mem)
  have notrest: "i \<notin> set (pass_rest q)"
    using p job assms(3) by auto
  show ?thesis
  proof (cases "pass_job q")
    case None
    note c = r_inv_parts(2)[OF assms(1) None]
    show ?thesis
    proof (rule r_invI_None)
      fix j assume "j \<in> set (jobs (q\<lparr>jobs := ?js\<rparr>))"
      then have "j \<in> set ?js" by simp
      from mem[OF this] c assms(5) show "jb_status j \<noteq> Running" by auto
    qed (use p c None ids in simp_all)
  next
    case (Some i')
    note c = r_inv_parts(3)[OF assms(1) Some]
    from c job assms(3) have ne: "i \<noteq> i'" by auto
    show ?thesis
    proof (rule r_invI_Some[where i=i'])
      fix j assume "j \<in> set (jobs (q\<lparr>jobs := ?js\<rparr>))"
      then have "j \<in> set ?js" by simp
      from mem[OF this] c assms(5) ne show "(jb_status j = Running) = (jb_id j = i')" by auto
    next
      fix j assume "j \<in> set (jobs (q\<lparr>jobs := ?js\<rparr>))" "jb_id j \<in> set (pass_rest (q\<lparr>jobs := ?js\<rparr>))"
      then have j: "j \<in> set ?js" "jb_id j \<in> set (pass_rest q)" by simp_all
      from mem[OF j(1)] notrest j(2) have "j \<in> set (jobs q)" by auto
      with p j(2) show "jb_status j = Queued" by auto
    next
      from c obtain j0 where "j0 \<in> set (jobs q)" "jb_id j0 = i'" by blast
      then have "i' \<in> set (map jb_id ?js)" unfolding ids by (simp add: image_iff) metis
      then show "\<exists>j \<in> set (jobs (q\<lparr>jobs := ?js\<rparr>)). jb_id j = i'" by auto
    qed (use p c Some ids in simp_all)
  qed
qed

lemma r_inv_retryJob:
  assumes "r_inv q"
  shows "r_inv (snd (r_retryJob i now jitter q))"
proof (cases "jobs_get i (jobs q)")
  case None
  with assms show ?thesis by (simp add: r_retryJob_def)
next
  case (Some job)
  show ?thesis
  proof (cases "jb_status job = Failed")
    case False
    with Some assms show ?thesis by (simp add: r_retryJob_def)
  next
    case True
    show ?thesis
    proof (cases "jb_attempts job \<ge> maxAttempts job")
      case c: True
      have "r_inv (q\<lparr>jobs := jobs_modify i (\<lambda>j. j\<lparr>jb_status := Dead, updatedAt := now\<rparr>) (jobs q)\<rparr>)"
        using assms Some True by (rule r_inv_modify) simp_all
      with Some True c show ?thesis by (simp add: r_retryJob_def)
    next
      case c: False
      have "r_inv (q\<lparr>jobs := jobs_modify i
                   (\<lambda>j. j\<lparr>jb_status := Queued, jb_attempts := jb_attempts j + 1,
                          nextRunAt := calculateNextRunTime (config q) (jb_attempts j + 1) now jitter,
                          updatedAt := now, jb_error := None\<rparr>) (jobs q)\<rparr>)"
        using assms Some True by (rule r_inv_modify) simp_all
      with Some True c show ?thesis by (simp add: r_retryJob_def)
    qed
  qed
qed

lemma r_inv_clearDeadJobs:
  assumes "r_inv q"
  shows "r_inv (snd (r_clearDeadJobs q))"
proof (cases "pass_job q")
  case None
  note c = r_inv_parts(2)[OF assms None]
  show ?thesis unfolding r_clearDeadJobs_def snd_conv
    by (rule r_invI_None) (use c None r_inv_parts(1)[OF assms] in \<open>simp_all add: distinct_map_filter\<close>)
next
  case (Some i)
  note c = r_inv_parts(3)[OF assms Some]
  from c obtain r where r: "r \<in> set (jobs q)" "jb_id r = i" by auto
  with c have "jb_status r = Running" by auto
  with r have ex: "\<exists>r \<in> set (filter (\<lambda>r. jb_status r \<noteq> Dead) (jobs q)). jb_id r = i"
    by auto
  show ?thesis unfolding r_clearDeadJobs_def snd_conv
    by (rule r_invI_Some[where i=i])
       (use c Some ex r_inv_parts(1)[OF assms] in \<open>simp_all add: distinct_map_filter\<close>)
qed

lemma r_inv_processQueue:
  assumes "r_inv q"
  shows "r_inv (processQueue now q)"
proof (cases "rq_isProcessing q \<or> length (running q) \<ge> concurrency (config q)")
  case True
  with assms show ?thesis by (simp add: processQueue_def)
next
  case False
  have nj: "pass_job q = None"
  proof (cases "pass_job q")
    case (Some i)
    from r_inv_parts(3)[OF assms Some] False show ?thesis by simp
  qed simp
  note c = r_inv_parts(2)[OF assms nj]
  note p = r_inv_parts(1)[OF assms]
  let ?snap = "map jb_id (getJobs (Some Queued) 100 (jobs q))"
  let ?q1 = "q\<lparr>rq_isProcessing := True, pass_now := now\<rparr>"
  have eq: "processQueue now q = dispatch_loop now ?snap ?q1"
    using False by (simp add: processQueue_def)
  have d: "distinct ?snap"
  proof -
    have "distinct (map jb_id (filter (\<lambda>job. jb_status job = Queued) (jobs q)))"
      using p by (simp add: distinct_map_filter)
    then have "distinct (take 100 (map jb_id (filter (\<lambda>job. jb_status job = Queued) (jobs q))))"
      by (rule distinct_take)
    then show ?thesis by (simp add: getJobs_def take_map)
  qed
  have qd: "\<forall>j \<in> set (jobs ?q1). jb_id j \<in> set ?snap \<longrightarrow> jb_status j = Queued"
  proof (intro ballI impI)
    fix j assume j: "j \<in> set (jobs ?q1)" "jb_id j \<in> set ?snap"
    then obtain j' where j': "j' \<in> set (getJobs (Some Queued) 100 (jobs q))" "jb_id j' = jb_id j"
      by auto
    then have "j' \<in> set (filter (\<lambda>job. jb_status job = Queued) (jobs q))"
      by (auto simp: getJobs_def dest: in_set_takeD)
    then have j'2: "j' \<in> set (jobs q)" "jb_status j' = Queued" by simp_all
    with j j' p have "j' = j" by (auto simp: distinct_map inj_on_def)
    with j'2 show "jb_status j = Queued" by simp
  qed
  show ?thesis unfolding eq
    by (rule r_inv_dispatch_loop) (use p c nj d qd in simp_all)
qed

lemma job_settled_id [simp]: "jb_id (job_settled cfg out now jitter j) = jb_id j"
  by (simp add: job_settled_def Let_def split: exec_outcome.splits)

lemma job_settled_not_running [simp]: "jb_status (job_settled cfg out now jitter j) \<noteq> Running"
  by (simp add: job_settled_def Let_def split: exec_outcome.splits)

lemma job_settled_not_queued [simp]: "jb_status (job_settled cfg out now jitter j) \<noteq> Queued"
  by (simp add: job_settled_def Let_def split: exec_outcome.splits)

lemma r_inv_settle:
  assumes "r_inv q"
  shows "r_inv (r_settle out now jitter q)"
proof (cases "pass_job q")
  case None
  with assms show ?thesis by (simp add: r_settle_def)
next
  case (Some i)
  note c = r_inv_parts(3)[OF assms Some]
  note p = r_inv_parts(1)[OF assms]
  let ?js = "jobs_modify i (job_settled (config q) out now jitter) (jobs q)"
  let ?q1 = "q\<lparr>jobs := ?js, running := removeAll i (running q), pass_job := None\<rparr>"
  have eq: "r_settle out now jitter q = dispatch_loop now (pass_rest q) ?q1"
    using Some by (simp add: r_settle_def)
  have ids: "map jb_id ?js = map jb_id (jobs q)" by (rule jobs_modify_keep_ids) simp
  have mem: "\<And>x. x \<in> set ?js \<Longrightarrow>
      (x \<in> set (jobs q) \<and> jb_id x \<noteq> i) \<or> (jb_id x = i \<and> jb_status x \<noteq> Running \<and> jb_status x \<noteq> Queued)"
    by (drule jobs_modify_mem) auto
  have nr: "\<forall>j \<in> set (jobs ?q1). jb_status j \<noteq> Running"
  proof
    fix j assume "j \<in> set (jobs ?q1)"
    then have "j \<in> set ?js" by simp
    from mem[OF this] c show "jb_status j \<noteq> Running" by auto
  qed
  from c obtain j0 where j0: "j0 \<in> set (jobs q)" "jb_id j0 = i" "jb_status j0 = Running" by auto
  with p have notrest: "i \<notin> set (pass_rest q)" by auto
  have qd: "\<forall>j \<in> set (jobs ?q1). jb_id j \<in> set (pass_rest q) \<longrightarrow> jb_status j = Queued"
  proof (intro ballI impI)
    fix j assume "j \<in> set (jobs ?q1)" "jb_id j \<in> set (pass_rest q)"
    then have j: "j \<in> set ?js" "jb_id j \<in> set (pass_rest q)" by simp_all
    from mem[OF j(1)] notrest j(2) have "j \<in> set (jobs q)" by auto
    with p j(2) show "jb_status j = Queued" by auto
  qed
  show ?thesis unfolding eq
    by (rule r_inv_dispatch_loop) (use p c ids nr qd in simp_all)
qed

lemma r_inv_run:
  "r_inv q \<Longrightarrow> r_fresh evs q \<Longrightarrow> r_inv (r_run evs q)"
  unfolding r_run_def
proof (induction evs arbitrary: q)
  case Nil then show ?case by simp
next
  case (Cons ev evs)
  have "r_inv (r_step q ev)"
  proof (cases ev)
    case (RAddJob ty pl k corr newId now)
    with Cons.prems show ?thesis by (simp add: r_inv_addJob)
  qed (use Cons.prems in \<open>simp_all add: r_inv_retryJob r_inv_clearDeadJobs r_inv_processQueue r_inv_settle\<close>)
  with Cons show ?case by simp
qed

lemma r_inv_new: "r_inv (new_rqueue cfg)"
  by (simp add: r_inv_def new_rqueue_def)

subsection \<open>Finished jobs and hand-over in the renderer's queue\<close>

lemma dispatch_loop_config [simp]: "config (dispatch_loop t rest q) = config q"
  by (induction rest) (auto simp: end_pass_def split: option.splits)

lemma r_step_config [simp]: "config (r_step q ev) = config q"
  by (cases ev)
     (auto simp: r_addJob_def r_retryJob_def r_clearDeadJobs_def processQueue_def r_settle_def Let_def
       split: option.splits)

lemma r_run_config [simp]: "config (r_run evs q) = config q"
  unfolding r_run_def by (induction evs arbitrary: q) simp_all

lemma dispatch_loop_keeps:
  assumes "\<forall>j \<in> set (jobs q). jb_id j \<in> set rest \<longrightarrow> jb_status j = Queued"
    and "J \<in> set (jobs q)" "jb_status J \<noteq> Queued"
  shows "J \<in> set (jobs (dispatch_loop t rest q))"
  using assms
proof (induction rest)
  case Nil then show ?case by (simp add: end_pass_def)
next
  case (Cons i rest)
  have IH: "J \<in> set (jobs (dispatch_loop t rest q))"
    using Cons.prems by (intro Cons.IH) simp_all
  from Cons.prems have ne: "jb_id J \<noteq> i" by auto
  have m: "J \<in> set (jobs_modify i (\<lambda>j. j\<lparr>jb_status := Running, updatedAt := t\<rparr>) (jobs q))"
    using Cons.prems(2) ne by (rule jobs_modify_other)
  show ?case using IH m Cons.prems(2)
    by (auto simp: end_pass_def split: option.splits)
qed

lemma r_succeeded_step:
  assumes "r_inv q" "J \<in> set (jobs q)" "jb_status J = Succeeded"
    and "r_fresh [ev] q"
  shows "J \<in> set (jobs (r_step q ev))"
proof (cases ev)
  case (RAddJob ty pl k corr newId now)
  with assms(4) have f: "newId \<notin> jb_id ` set (jobs q)" by simp
  obtain i q' where r: "r_addJob ty pl k corr newId now q = (i, q')"
    by (cases "r_addJob ty pl k corr newId now q")
  have "jb_id (new_job (config q) ty pl k corr newId now) \<notin> jb_id ` set (jobs q)"
    using f by (simp add: new_job_def)
  from r_addJob_cases[OF r] jobs_set_fresh[OF this] assms(2) have "J \<in> set (jobs q')" by auto
  with r RAddJob show ?thesis by simp
next
  case (RRetryJob i now jitter)
  show ?thesis
  proof (cases "jobs_get i (jobs q)")
    case None
    with RRetryJob assms show ?thesis by (simp add: r_retryJob_def)
  next
    case (Some job)
    from jobs_get_SomeD[OF Some] have job: "job \<in> set (jobs q)" "jb_id job = i" by simp_all
    show ?thesis
    proof (cases "jb_status job = Failed")
      case False
      with Some RRetryJob assms show ?thesis by (simp add: r_retryJob_def)
    next
      case True
      have "jb_id J \<noteq> i"
      proof
        assume "jb_id J = i"
        with job assms(2) r_inv_parts(1)[OF assms(1)] have "J = job"
          by (auto simp: distinct_map inj_on_def)
        with True assms(3) show False by simp
      qed
      from jobs_modify_other[OF assms(2) this] Some True RRetryJob show ?thesis
        by (simp add: r_retryJob_def)
    qed
  qed
next
  case RClearDeadJobs
  with assms show ?thesis by (simp add: r_clearDeadJobs_def)
next
  case (RProcessQueue now)
  show ?thesis
  proof (cases "rq_isProcessing q \<or> length (running q) \<ge> concurrency (config q)")
    case True
    with RProcessQueue assms show ?thesis by (simp add: processQueue_def)
  next
    case False
    let ?snap = "map jb_id (getJobs (Some Queued) 100 (jobs q))"
    let ?q1 = "q\<lparr>rq_isProcessing := True, pass_now := now\<rparr>"
    have qd: "\<forall>j \<in> set (jobs ?q1). jb_id j \<in> set ?snap \<longrightarrow> jb_status j = Queued"
    proof (intro ballI impI)
      fix j assume j: "j \<in> set (jobs ?q1)" "jb_id j \<in> set ?snap"
      then obtain j' where j': "j' \<in> set (getJobs (Some Queued) 100 (jobs q))" "jb_id j' = jb_id j"
        by auto
      then have "j' \<in> set (filter (\<lambda>job. jb_status job = Queued) (jobs q))"
        by (auto simp: getJobs_def dest: in_set_takeD)
      then have j'2: "j' \<in> set (jobs q)" "jb_status j' = Queued" by simp_all
      with j j' r_inv_parts(1)[OF assms(1)] have "j' = j" by (auto simp: distinct_map inj_on_def)
      with j'2 show "jb_status j = Queued" by simp
    qed
    have "J \<in> set (jobs (dispatch_loop now ?snap ?q1))"
      by (rule dispatch_loop_keeps[OF qd]) (use assms in simp_all)
    with False RProcessQueue show ?thesis by (simp add: processQueue_def)
  qed
next
  case (RSettle out now jitter)
  show ?thesis
  proof (cases "pass_job q")
    case None
    with RSettle assms show ?thesis by (simp add: r_settle_def)
  next
    case (Some i)
    note c = r_inv_parts(3)[OF assms(1) Some]
    note p = r_inv_parts(1)[OF assms(1)]
    let ?js = "jobs_modify i (job_settled (config q) out now jitter) (jobs q)"
    let ?q1 = "q\<lparr>jobs := ?js, running := removeAll i (running q), pass_job := None\<rparr>"
    from c assms(2,3) have ne: "jb_id J \<noteq> i" by auto
    have J1: "J \<in> set (jobs ?q1)" using jobs_modify_other[OF assms(2) ne] by simp
    from c obtain j0 where j0: "j0 \<in> set (jobs q)" "jb_id j0 = i" "jb_status j0 = Running" by auto
    with p have notrest: "i \<notin> set (pass_rest q)" by auto
    have qd: "\<forall>j \<in> set (jobs ?q1). jb_id j \<in> set (pass_rest q) \<longrightarrow> jb_status j = Queued"
    proof (intro ballI impI)
      fix j assume "j \<in> set (jobs ?q1)" "jb_id j \<in> set (pass_rest q)"
      then have j: "j \<in> set ?js" "jb_id j \<in> set (pass_rest q)" by simp_all
      from jobs_modify_mem[OF j(1)] notrest j(2) have "j \<in> set (jobs q)" by auto
      with p j(2) show "jb_status j = Queued" by auto
    qed
    have "J \<in> set (jobs (dispatch_loop now (pass_rest q) ?q1))"
      by (rule dispatch_loop_keeps[OF qd J1]) (use assms in simp)
    with Some RSettle show ?thesis by (simp add: r_settle_def)
  qed
qed



lemma e_run_append: "e_run (evs @ evs') q = e_run evs' (e_run evs q)"
  by (simp add: e_run_def)

lemma r_succeeded_run:
  "r_inv q \<Longrightarrow> r_fresh evs q \<Longrightarrow> J \<in> set (jobs q) \<Longrightarrow> jb_status J = Succeeded \<Longrightarrow>
     J \<in> set (jobs (r_run evs q))"
proof (induction evs arbitrary: q)
  case Nil then show ?case by (simp add: r_run_def)
next
  case (Cons ev evs)
  from Cons.prems have f1: "r_fresh [ev] q" and f2: "r_fresh evs (r_step q ev)" by auto
  have i1: "r_inv (r_step q ev)" using r_inv_run[of q "[ev]"] Cons.prems(1) f1 by (simp add: r_run_def)
  have "J \<in> set (jobs (r_step q ev))" using Cons.prems f1 by (intro r_succeeded_step) simp_all
  from Cons.IH[OF i1 f2 this Cons.prems(4)] show ?case by (simp add: r_run_def)
qed

text \<open>What the loop hands over.\<close>

lemma dispatch_loop_pick:
  assumes "pass_job (dispatch_loop t rest q) = Some i"
  shows "\<exists>pre post job. rest = pre @ i # post \<and> jobs_get i (jobs q) = Some job \<and>
           nextRunAt job \<le> pass_now q \<and> i \<notin> set (running q) \<and>
           length (running q) < concurrency (config q) \<and>
           (\<forall>i' \<in> set pre. \<forall>j'. jobs_get i' (jobs q) = Some j' \<longrightarrow>
               nextRunAt j' > pass_now q \<or> i' \<in> set (running q))"
  using assms
proof (induction rest)
  case Nil then show ?case by (simp add: end_pass_def)
next
  case (Cons a rest)
  from Cons.prems have lt: "length (running q) < concurrency (config q)"
    by (auto simp: end_pass_def split: if_splits)
  show ?case
  proof (cases "jobs_get a (jobs q)")
    case None
    with Cons.prems lt have "pass_job (dispatch_loop t rest q) = Some i" by simp
    from Cons.IH[OF this] obtain pre post job where
      "rest = pre @ i # post \<and> jobs_get i (jobs q) = Some job \<and>
           nextRunAt job \<le> pass_now q \<and> i \<notin> set (running q) \<and>
           length (running q) < concurrency (config q) \<and>
           (\<forall>i' \<in> set pre. \<forall>j'. jobs_get i' (jobs q) = Some j' \<longrightarrow>
               nextRunAt j' > pass_now q \<or> i' \<in> set (running q))" by blast
    with None show ?thesis
      by (intro exI[of _ "a # pre"] exI[of _ post] exI[of _ job]) auto
  next
    case (Some ja)
    show ?thesis
    proof (cases "nextRunAt ja > pass_now q \<or> a \<in> set (running q)")
      case True
      with Cons.prems lt Some have "pass_job (dispatch_loop t rest q) = Some i"
        by (auto split: if_splits)
      from Cons.IH[OF this] obtain pre post job where
        "rest = pre @ i # post \<and> jobs_get i (jobs q) = Some job \<and>
           nextRunAt job \<le> pass_now q \<and> i \<notin> set (running q) \<and>
           length (running q) < concurrency (config q) \<and>
           (\<forall>i' \<in> set pre. \<forall>j'. jobs_get i' (jobs q) = Some j' \<longrightarrow>
               nextRunAt j' > pass_now q \<or> i' \<in> set (running q))" by blast
      with True Some show ?thesis
        by (intro exI[of _ "a # pre"] exI[of _ post] exI[of _ job]) auto
    next
      case False
      with Cons.prems lt Some have "a = i" by simp
      with False Some lt show ?thesis
        by (intro exI[of _ "[]"] exI[of _ rest] exI[of _ ja]) auto
    qed
  qed
qed

subsection \<open>Classification, delays and evaluation rules\<close>

lemma processNextJob_ids [simp]:
  "map ob_id (rows (processNextJob t0 out t1 q)) = map ob_id (rows q)"
  by (simp add: processNextJob_def settle_def tick_def split: option.splits)


lemma r_job_settled_thrown:
  "job_settled cfg (Thrown m) now jitter job =
     (if jb_attempts job + 1 \<ge> maxAttempts job
      then job\<lparr>jb_attempts := jb_attempts job + 1, jb_error := Some m, updatedAt := now,
               jb_status := Dead\<rparr>
      else job\<lparr>jb_attempts := jb_attempts job + 1, jb_error := Some m, updatedAt := now,
               jb_status := Failed,
               nextRunAt := calculateNextRunTime cfg (jb_attempts job + 1) now jitter\<rparr>)"
  by (simp add: job_settled_def Let_def)

lemmas r_eval = r_settle_def processQueue_def rqueue_of_def new_rqueue_def getJobs_def
  jobs_get_def jobs_set_def jobs_modify_def job_settled_def calculateNextRunTime_def baseDelay_def
  sample_job_def new_job_def default_config_def end_pass_def r_addJob_def r_retryJob_def
  r_clearDeadJobs_def findJobByIdempotencyKey_def r_run_def Let_def
  shadowed_key_history_def r_three_jobs_history_def r_later_history_def r_two_jobs_history_def

lemmas e_eval = equeue_of_def empty_equeue_def sample_row_def getJobById_def
  getJobByIdempotencyKey_def insert_row_def addJob_def getNextJobToProcess_def is_due_def
  or_null_def updateJobStatus_def updateJobForRetry_def apply_result_def tick_def settle_def
  processNextJob_def retryJob_def clearDeadJobs_def maxConcurrency_def backoffSchedule_def
  e_run_def Let_def e_three_jobs_history_def e_later_history_def e_one_failure_history_def

lemma baseDelay_mono:
  assumes "1 \<le> backoffMultiplier cfg" "n \<le> m"
  shows "baseDelay cfg n \<le> baseDelay cfg m"
proof -
  have "backoffMultiplier cfg ^ n \<le> backoffMultiplier cfg ^ m"
    using assms by (simp add: power_increasing)
  then show ?thesis by (simp add: baseDelay_def min.coboundedI2)
qed

lemma baseDelay_pos:
  assumes "1 \<le> backoffMultiplier cfg" "0 < maxBackoffMs cfg"
  shows "0 < baseDelay cfg n"
  using assms by (simp add: baseDelay_def)

lemma e_retryable_failure_row:
  assumes "\<not> isProcessing q" "activeJobs q = []" "distinct (map ob_id (rows q))"
    and "getNextJobToProcess t0 (rows q) = Some j" "isRetryableError m"
  shows "getJobById (ob_id j) (rows (processNextJob t0 (Threw m) t1 q)) =
     Some (if ob_attempts j < length backoffSchedule
           then j\<lparr>ob_status := Queued, ob_attempts := ob_attempts j + 1,
                  next_run_at := t1 + backoffSchedule ! ob_attempts j * 1000,
                  updated_at := t1, error_message := or_null (Some m),
                  last_attempt_at := Some t1\<rparr>
           else j\<lparr>ob_status := Dead, updated_at := t1, error_message := or_null (Some m),
                  last_attempt_at := Some t1\<rparr>)"
  using e_processNextJob_row[OF assms(1-4), of "Threw m" t1] assms(5) by simp

subsection \<open>Enqueueing under a key that is already stored\<close>

lemma r_addJob_first_succeeded:
  assumes "findJobByIdempotencyKey k (jobs rq) = Some J" "jb_status J = Succeeded"
  shows "r_addJob ty pl k corr newId now rq = (jb_id J, rq)"
  using assms by (simp add: r_addJob_def)

lemma r_addJob_none_succeeded:
  assumes "list_all (\<lambda>j. idempotencyKey j = k \<longrightarrow> jb_status j \<noteq> Succeeded) (jobs rq)"
    and "newId \<notin> jb_id ` set (jobs rq)"
  shows "r_addJob ty pl k corr newId now rq =
           (newId, rq\<lparr>jobs := jobs rq @ [new_job (config rq) ty pl k corr newId now]\<rparr>)"
proof -
  have "\<not> (findJobByIdempotencyKey k (jobs rq) \<noteq> None \<and>
           jb_status (the (findJobByIdempotencyKey k (jobs rq))) = Succeeded)"
  proof (cases "findJobByIdempotencyKey k (jobs rq)")
    case None then show ?thesis by simp
  next
    case (Some e)
    then have "e \<in> set (jobs rq)" "idempotencyKey e = k"
      by (auto simp: findJobByIdempotencyKey_def find_Some_iff)
    with assms(1) Some show ?thesis by (auto simp: list_all_iff)
  qed
  moreover have "jobs_set (new_job (config rq) ty pl k corr newId now) (jobs rq) =
      jobs rq @ [new_job (config rq) ty pl k corr newId now]"
    by (rule jobs_set_fresh) (use assms(2) in \<open>simp add: new_job_def\<close>)
  ultimately show ?thesis by (auto simp add: r_addJob_def Let_def)
qed

text \<open>
  Claim C1 in the outbox: with a succeeded job under the key, \<^verbatim>\<open>addJob\<close> returns its id
  and leaves the queue as it is; no handler is called, since \<^verbatim>\<open>addJob\<close> calls none.
\<close>

lemma e_addJob_succeeded_replay:
  assumes "e_inv q" "J \<in> set (rows q)" "idempotency_key J = k" "ob_status J = Succeeded"
    and "idempotency_key jobData = k"
  shows "jobId (fst (addJob jobData newId now q)) = ob_id J"
    and "success (fst (addJob jobData newId now q))"
    and "snd (addJob jobData newId now q) = q"
  using e_addJob_existing[OF e_inv_cases(3)[OF assms(1), THEN conjunct2] assms(2), of jobData newId now]
    assms(3,5) by simp_all

subsection \<open>Counting the running jobs\<close>

lemma at_most_one:
  assumes "distinct (map f xs)" "\<forall>x \<in> set xs. P x \<longrightarrow> f x = c"
  shows "length (filter P xs) \<le> 1"
proof -
  have d: "distinct (map f (filter P xs))" using assms(1) by (rule distinct_map_filter)
  have "set (map f (filter P xs)) \<subseteq> {c}" using assms(2) by auto
  then have "card (set (map f (filter P xs))) \<le> card {c}" by (intro card_mono) simp_all
  moreover have "card (set (map f (filter P xs))) = length (map f (filter P xs))"
    using d by (rule distinct_card)
  ultimately have "length (map f (filter P xs)) \<le> 1" by simp
  then show ?thesis by (simp only: length_map)
qed

lemma e_running_count:
  assumes "e_inv q"
  shows "length (filter (\<lambda>r. ob_status r = Running) (rows q)) \<le> 1" "length (activeJobs q) \<le> 1"
proof -
  show "length (filter (\<lambda>r. ob_status r = Running) (rows q)) \<le> 1"
  proof (cases "nextJob q")
    case None
    from e_inv_cases(1)[OF assms None] have "filter (\<lambda>r. ob_status r = Running) (rows q) = []"
      by (simp add: filter_empty_conv)
    then show ?thesis by simp
  next
    case (Some j)
    from e_inv_cases(2)[OF assms Some] e_inv_cases(3)[OF assms] show ?thesis
      by (intro at_most_one[where f = ob_id and c = "ob_id j"]) simp_all
  qed
  show "length (activeJobs q) \<le> 1"
    using e_inv_cases(1,2)[OF assms] by (cases "nextJob q") simp_all
qed

lemma e_tick_blocked:
  assumes "e_inv q" "i \<in> set (activeJobs q)"
  shows "tick now q = q"
proof (cases "nextJob q")
  case None
  from e_inv_cases(1)[OF assms(1) None] assms(2) show ?thesis by simp
next
  case (Some j)
  from e_inv_cases(2)[OF assms(1) Some] show ?thesis by (simp add: tick_def)
qed

lemma e_tick_handover:
  assumes "tick now q \<noteq> q"
  shows "\<not> isProcessing q \<and> length (activeJobs q) < maxConcurrency \<and>
     (\<exists>j. getNextJobToProcess now (rows q) = Some j \<and> nextJob (tick now q) = Some j \<and>
          ob_status j = Queued \<and> activeJobs (tick now q) = List.insert (ob_id j) (activeJobs q))"
proof -
  from assms have g: "\<not> isProcessing q \<and> length (activeJobs q) < maxConcurrency"
    by (auto simp: tick_def split: if_splits)
  with assms obtain j where j: "getNextJobToProcess now (rows q) = Some j"
    by (cases "getNextJobToProcess now (rows q)") (auto simp: tick_def)
  from getNext_SomeD(2)[OF j] have "ob_status j = Queued" by (simp add: is_due_def)
  with g j show ?thesis by (simp add: tick_def)
qed

lemma r_running_count:
  assumes "r_inv q"
  shows "length (filter (\<lambda>j. jb_status j = Running) (jobs q)) \<le> concurrency (config q)"
    "length (running q) \<le> concurrency (config q)"
proof -
  show "length (filter (\<lambda>j. jb_status j = Running) (jobs q)) \<le> concurrency (config q)"
  proof (cases "pass_job q")
    case None
    from r_inv_parts(2)[OF assms None] have "filter (\<lambda>j. jb_status j = Running) (jobs q) = []"
      by (simp add: filter_empty_conv)
    then show ?thesis by simp
  next
    case (Some i)
    note c = r_inv_parts(3)[OF assms Some]
    from c r_inv_parts(1)[OF assms] have "length (filter (\<lambda>j. jb_status j = Running) (jobs q)) \<le> 1"
      by (intro at_most_one[where f = jb_id and c = i]) simp_all
    with c show ?thesis by simp
  qed
  show "length (running q) \<le> concurrency (config q)"
    using r_inv_parts(2,3)[OF assms] by (cases "pass_job q") simp_all
qed

lemma r_dispatch_guard:
  assumes "pass_job (dispatch_loop t rest q) = Some i"
  shows "i \<notin> set (running q)" "length (running q) < concurrency (config q)" "i \<in> set rest"
  using dispatch_loop_pick[OF assms] by auto

lemma r_running_blocked:
  assumes "r_inv q" "i \<in> set (running q)"
  shows "processQueue now q = q" "pass_job (r_settle out t jitter q) \<noteq> Some i"
proof -
  have pj: "pass_job q = Some i"
  proof (cases "pass_job q")
    case None
    from r_inv_parts(2)[OF assms(1) None] assms(2) show ?thesis by simp
  next
    case (Some i')
    from r_inv_parts(3)[OF assms(1) Some] assms(2) Some show ?thesis by simp
  qed
  note c = r_inv_parts(3)[OF assms(1) pj]
  from c show "processQueue now q = q" by (simp add: processQueue_def)
  from c obtain j0 where j0: "j0 \<in> set (jobs q)" "jb_id j0 = i" "jb_status j0 = Running" by auto
  with r_inv_parts(1)[OF assms(1)] have notrest: "i \<notin> set (pass_rest q)" by auto
  show "pass_job (r_settle out t jitter q) \<noteq> Some i"
  proof
    assume "pass_job (r_settle out t jitter q) = Some i"
    then have "pass_job (dispatch_loop t (pass_rest q)
            (q\<lparr>jobs := jobs_modify i (job_settled (config q) out t jitter) (jobs q),
               running := removeAll i (running q), pass_job := None\<rparr>)) = Some i"
      using pj by (simp add: r_settle_def)
    from r_dispatch_guard(3)[OF this] notrest show False by simp
  qed
qed

subsection \<open>The oldest due job goes first\<close>







lemma job_settled_createdAt [simp]: "createdAt (job_settled cfg out now jitter j) = createdAt j"
  by (simp add: job_settled_def Let_def split: exec_outcome.splits)




subsection \<open>What a pass hands over\<close>








subsection \<open>The backlog of retried jobs\<close>




lemma backlog_job_fields [simp]:
  "jb_id (backlog_job k) = backlog_id k" "jb_status (backlog_job k) = Queued"
  "nextRunAt (backlog_job k) = 10 * k + 4005" "createdAt (backlog_job k) = 10 * k"
  by (simp_all add: backlog_job_def new_job_def)







section \<open>The claims\<close>

subsection \<open>Claim C1\<close>

text \<open>
  Claim C1 is broken by the renderer's queue. The history: a label job is enqueued under
  the key \<^verbatim>\<open>label_O1\<close> and fails; the same key is enqueued again, which creates a
  second job, and that one succeeds. The queue now holds a succeeded job with the key, and
  a third enqueue under the key creates a third job: \<^verbatim>\<open>findJobByIdempotencyKey\<close>
  returns the first job with the key, the failed one.
\<close>

theorem C1_renderer_shadowed_key:
  "r_fresh shadowed_key_history (new_rqueue default_config)
   \<and> map (\<lambda>j. (jb_id j, idempotencyKey j, jb_status j))
       (jobs (r_run shadowed_key_history (new_rqueue default_config))) =
     [(''job_1'', ''label_O1'', Failed), (''job_2'', ''label_O1'', Succeeded)]
   \<and> fst (r_addJob create_label ''{orderId: O1}'' ''label_O1'' (Some ''O1'') ''job_3'' 3000
        (r_run shadowed_key_history (new_rqueue default_config))) = ''job_3''
   \<and> map (\<lambda>j. (jb_id j, idempotencyKey j, jb_status j))
       (jobs (snd (r_addJob create_label ''{orderId: O1}'' ''label_O1'' (Some ''O1'') ''job_3'' 3000
        (r_run shadowed_key_history (new_rqueue default_config))))) =
     [(''job_1'', ''label_O1'', Failed), (''job_2'', ''label_O1'', Succeeded),
      (''job_3'', ''label_O1'', Queued)]"
  by (simp add: r_eval)

subsection \<open>Claim C2\<close>

text \<open>
  Claim C2, as stated, fails in the renderer's queue: with the sample job queued under the
  key, a second enqueue under the key creates a second job and returns the new id.
\<close>

theorem C2_counterexample:
  "r_addJob create_label ''{orderId: O1}'' ''label_O1'' (Some ''O1'') ''job_2'' 2000
     (rqueue_of [sample_job]) =
   (''job_2'',
    rqueue_of [sample_job,
               new_job default_config create_label ''{orderId: O1}'' ''label_O1'' (Some ''O1'')
                 ''job_2'' 2000])
   \<and> jb_status sample_job = Queued \<and> idempotencyKey sample_job = ''label_O1''"
  by (simp add: r_eval)

text \<open>
  Claim C2, amended. In the outbox, whose table keeps the keys unique, an enqueue under
  the key of a stored job of any status, so also of a job that is not terminal, creates
  no job and returns the id of that job. In the renderer's queue only a succeeded job is
  deduplicated: when no stored job with the key has succeeded, an enqueue under the key
  creates a new queued job, last in the map, and returns its fresh id, also when a job
  with the key is queued, running or failed.
\<close>

theorem C2_enqueue_existing_key:
  "(distinct (map idempotency_key (rows q)) \<and> J \<in> set (rows q) \<and>
    idempotency_key jobData = idempotency_key J \<longrightarrow>
      addJob jobData newId now q =
        (\<lparr>success = True, jobId = ob_id J, jr_error = None, retryable = None,
          jr_correlationId = correlation_id J\<rparr>, q))
   \<and> (list_all (\<lambda>j. idempotencyKey j = k \<longrightarrow> jb_status j \<noteq> Succeeded) (jobs rq) \<and>
      rid \<notin> jb_id ` set (jobs rq) \<longrightarrow>
      r_addJob ty pl k corr rid t rq =
        (rid, rq\<lparr>jobs := jobs rq @ [new_job (config rq) ty pl k corr rid t]\<rparr>))"
proof (intro conjI impI)
  assume "distinct (map idempotency_key (rows q)) \<and> J \<in> set (rows q) \<and>
    idempotency_key jobData = idempotency_key J"
  then show "addJob jobData newId now q =
        (\<lparr>success = True, jobId = ob_id J, jr_error = None, retryable = None,
          jr_correlationId = correlation_id J\<rparr>, q)"
    by (intro e_addJob_existing) simp_all
next
  assume "list_all (\<lambda>j. idempotencyKey j = k \<longrightarrow> jb_status j \<noteq> Succeeded) (jobs rq) \<and>
      rid \<notin> jb_id ` set (jobs rq)"
  then show "r_addJob ty pl k corr rid t rq =
        (rid, rq\<lparr>jobs := jobs rq @ [new_job (config rq) ty pl k corr rid t]\<rparr>)"
    by (intro r_addJob_none_succeeded) simp_all
qed

text \<open>
  The instance: the sample job is running in the outbox and queued in the renderer's
  queue when its key is enqueued again.
\<close>

theorem C2_enqueue_existing_key_witness:
  "distinct (map idempotency_key (rows (equeue_of [sample_row\<lparr>ob_status := Running\<rparr>])))
   \<and> sample_row\<lparr>ob_status := Running\<rparr> \<in> set (rows (equeue_of [sample_row\<lparr>ob_status := Running\<rparr>]))
   \<and> idempotency_key sample_row = idempotency_key (sample_row\<lparr>ob_status := Running\<rparr>)
   \<and> addJob sample_row ''job_2'' 2000 (equeue_of [sample_row\<lparr>ob_status := Running\<rparr>]) =
       (\<lparr>success = True, jobId = ''job_1'', jr_error = None, retryable = None,
         jr_correlationId = Some ''O1''\<rparr>, equeue_of [sample_row\<lparr>ob_status := Running\<rparr>])
   \<and> list_all (\<lambda>j. jb_status j \<noteq> Succeeded) (jobs (rqueue_of [sample_job]))
   \<and> ''job_2'' \<notin> jb_id ` set (jobs (rqueue_of [sample_job]))
   \<and> r_addJob create_label ''{orderId: O1}'' ''label_O1'' (Some ''O1'') ''job_2'' 2000
       (rqueue_of [sample_job]) =
       (''job_2'', rqueue_of [sample_job,
          new_job default_config create_label ''{orderId: O1}'' ''label_O1'' (Some ''O1'')
            ''job_2'' 2000])"
proof -
  let ?q = "equeue_of [sample_row\<lparr>ob_status := Running\<rparr>]"
  let ?rq = "rqueue_of [sample_job]"
  note t = C2_enqueue_existing_key[where q = ?q and J = "sample_row\<lparr>ob_status := Running\<rparr>"
      and jobData = sample_row and newId = "''job_2''" and now = 2000 and rq = ?rq
      and k = "''label_O1''" and rid = "''job_2''" and ty = create_label
      and pl = "''{orderId: O1}''" and corr = "Some ''O1''" and t = 2000]
  have h1: "distinct (map idempotency_key (rows ?q)) \<and> sample_row\<lparr>ob_status := Running\<rparr> \<in> set (rows ?q) \<and>
      idempotency_key sample_row = idempotency_key (sample_row\<lparr>ob_status := Running\<rparr>)"
    by (simp add: equeue_of_def empty_equeue_def)
  have h2: "list_all (\<lambda>j. idempotencyKey j = ''label_O1'' \<longrightarrow> jb_status j \<noteq> Succeeded) (jobs ?rq) \<and>
      ''job_2'' \<notin> jb_id ` set (jobs ?rq)"
    by (simp add: rqueue_of_def new_rqueue_def sample_job_def new_job_def)
  note c1 = t[THEN conjunct1, THEN mp, OF h1]
  note c2 = t[THEN conjunct2, THEN mp, OF h2]
  have c1': "addJob sample_row ''job_2'' 2000 ?q =
       (\<lparr>success = True, jobId = ''job_1'', jr_error = None, retryable = None,
         jr_correlationId = Some ''O1''\<rparr>, ?q)"
    using c1 by (simp add: sample_row_def)
  have c2': "r_addJob create_label ''{orderId: O1}'' ''label_O1'' (Some ''O1'') ''job_2'' 2000 ?rq =
       (''job_2'', rqueue_of [sample_job,
          new_job default_config create_label ''{orderId: O1}'' ''label_O1'' (Some ''O1'')
            ''job_2'' 2000])"
    using c2 by (simp add: rqueue_of_def new_rqueue_def)
  have h2': "list_all (\<lambda>j. jb_status j \<noteq> Succeeded) (jobs ?rq)"
    by (simp add: rqueue_of_def new_rqueue_def sample_job_def new_job_def)
  from h1 h2 h2' c1' c2' show ?thesis by simp
qed

subsection \<open>Claim C3\<close>

text \<open>
  Claim C3, as stated, fails in both queues. In the outbox the retryable failure that
  brings the attempts of a job from 5 to the cap 6 queues it again, with the last backoff
  of two hours; the job dies at the next failure. In the renderer's queue a failure below
  the cap makes the job failed, not queued.
\<close>

theorem C3_counterexample:
  "getJobById ''job_1''
     (rows (processNextJob 2000 (Threw ''503 Service Unavailable'') 3000
        (equeue_of [sample_row\<lparr>ob_attempts := 5\<rparr>]))) =
     Some (sample_row\<lparr>ob_status := Queued, ob_attempts := 6, next_run_at := 7203000,
             updated_at := 3000, error_message := Some ''503 Service Unavailable'',
             last_attempt_at := Some 3000\<rparr>)
   \<and> length backoffSchedule = 6
   \<and> jobs (r_settle (Thrown ''503 Service Unavailable'') 3000 0
         (processQueue 2000 (rqueue_of [sample_job]))) =
     [sample_job\<lparr>jb_status := Failed, jb_attempts := 1,
                  jb_error := Some ''503 Service Unavailable'', updatedAt := 3000,
                  nextRunAt := 5000\<rparr>]
   \<and> maxAttempts sample_job = 6"
  using isRetryable_503 by (simp add: e_eval r_eval)

text \<open>
  Claim C3, amended. In the outbox the attempts of no job exceed the length 6 of the
  backoff schedule, over every history of events, when jobs are enqueued with zero
  attempts; a retryable failure of a job with fewer than 6 attempts adds one attempt and
  queues the job again, and a retryable failure of a job that already has 6 attempts
  makes it dead, the attempts unchanged. In the renderer's queue a failure adds one
  attempt; the job is dead exactly when the attempts so reached are at least its maximum
  and is failed (not queued) otherwise.
\<close>

theorem C3_attempts_cap:
  "(e_bounded q0 \<and> list_all e_from_caller evs \<longrightarrow>
      list_all (\<lambda>r. ob_attempts r \<le> length backoffSchedule) (rows (e_run evs q0)))
   \<and> length backoffSchedule = 6
   \<and> (\<not> isProcessing q \<and> activeJobs q = [] \<and> distinct (map ob_id (rows q)) \<and>
      getNextJobToProcess t0 (rows q) = Some j \<and> isRetryableError m \<longrightarrow>
        getJobById (ob_id j) (rows (processNextJob t0 (Threw m) t1 q)) =
          Some (if ob_attempts j < length backoffSchedule
                then j\<lparr>ob_status := Queued, ob_attempts := ob_attempts j + 1,
                       next_run_at := t1 + backoffSchedule ! ob_attempts j * 1000,
                       updated_at := t1, error_message := or_null (Some m),
                       last_attempt_at := Some t1\<rparr>
                else j\<lparr>ob_status := Dead, updated_at := t1, error_message := or_null (Some m),
                       last_attempt_at := Some t1\<rparr>))
   \<and> jb_attempts (job_settled cfg (Thrown e) now jitter job) = jb_attempts job + 1
   \<and> jb_status (job_settled cfg (Thrown e) now jitter job) =
       (if jb_attempts job + 1 \<ge> maxAttempts job then Dead else Failed)"
proof (intro conjI impI)
  assume "e_bounded q0 \<and> list_all e_from_caller evs"
  then have "e_bounded (e_run evs q0)" by (simp add: e_bounded_run)
  then show "list_all (\<lambda>r. ob_attempts r \<le> length backoffSchedule) (rows (e_run evs q0))"
    by (simp add: e_bounded_def)
next
  show "length backoffSchedule = 6" by (simp add: backoffSchedule_def)
next
  assume "\<not> isProcessing q \<and> activeJobs q = [] \<and> distinct (map ob_id (rows q)) \<and>
      getNextJobToProcess t0 (rows q) = Some j \<and> isRetryableError m"
  then show "getJobById (ob_id j) (rows (processNextJob t0 (Threw m) t1 q)) =
          Some (if ob_attempts j < length backoffSchedule
                then j\<lparr>ob_status := Queued, ob_attempts := ob_attempts j + 1,
                       next_run_at := t1 + backoffSchedule ! ob_attempts j * 1000,
                       updated_at := t1, error_message := or_null (Some m),
                       last_attempt_at := Some t1\<rparr>
                else j\<lparr>ob_status := Dead, updated_at := t1, error_message := or_null (Some m),
                       last_attempt_at := Some t1\<rparr>)"
    by (intro e_retryable_failure_row) simp_all
next
  show "jb_attempts (job_settled cfg (Thrown e) now jitter job) = jb_attempts job + 1"
    by (simp add: r_job_settled_thrown)
next
  show "jb_status (job_settled cfg (Thrown e) now jitter job) =
       (if jb_attempts job + 1 \<ge> maxAttempts job then Dead else Failed)"
    by (simp add: r_job_settled_thrown)
qed

text \<open>
  The instance: a history that enqueues the sample job and fails it once, and a row with
  6 attempts that fails again.
\<close>

theorem C3_attempts_cap_witness:
  "e_bounded empty_equeue
   \<and> list_all e_from_caller e_one_failure_history \<and> list_all (\<lambda>r. ob_attempts r \<le> length backoffSchedule)
       (rows (e_run e_one_failure_history empty_equeue))
   \<and> map ob_attempts
       (rows (e_run e_one_failure_history empty_equeue)) = [1]
   \<and> getNextJobToProcess 2000 (rows (equeue_of [sample_row\<lparr>ob_attempts := 6\<rparr>])) =
       Some (sample_row\<lparr>ob_attempts := 6\<rparr>)
   \<and> isRetryableError ''503 Service Unavailable''
   \<and> getJobById ''job_1''
       (rows (processNextJob 2000 (Threw ''503 Service Unavailable'') 3000
          (equeue_of [sample_row\<lparr>ob_attempts := 6\<rparr>]))) =
       Some (sample_row\<lparr>ob_attempts := 6, ob_status := Dead, updated_at := 3000,
               error_message := Some ''503 Service Unavailable'', last_attempt_at := Some 3000\<rparr>)"
proof -
  let ?evs = "e_one_failure_history"
  let ?q = "equeue_of [sample_row\<lparr>ob_attempts := 6\<rparr>]"
  note t = C3_attempts_cap[where ?q0.0 = empty_equeue and evs = ?evs and q = ?q and ?t0.0 = 2000
      and j = "sample_row\<lparr>ob_attempts := 6\<rparr>" and m = "''503 Service Unavailable''" and ?t1.0 = 3000]
  have h1: "e_bounded empty_equeue \<and> list_all e_from_caller ?evs"
    by (simp add: e_bounded_def empty_equeue_def sample_row_def e_one_failure_history_def)
  have h2: "\<not> isProcessing ?q \<and> activeJobs ?q = [] \<and> distinct (map ob_id (rows ?q)) \<and>
      getNextJobToProcess 2000 (rows ?q) = Some (sample_row\<lparr>ob_attempts := 6\<rparr>) \<and>
      isRetryableError ''503 Service Unavailable''"
    using isRetryable_503
    by (simp add: equeue_of_def empty_equeue_def getNextJobToProcess_def is_due_def sample_row_def)
  from t h1 have c1: "list_all (\<lambda>r. ob_attempts r \<le> length backoffSchedule) (rows (e_run ?evs empty_equeue))"
    by blast
  from t h2 have "getJobById (ob_id (sample_row\<lparr>ob_attempts := 6\<rparr>))
       (rows (processNextJob 2000 (Threw ''503 Service Unavailable'') 3000 ?q)) =
     Some (if ob_attempts (sample_row\<lparr>ob_attempts := 6\<rparr>) < length backoffSchedule
           then sample_row\<lparr>ob_attempts := 6\<rparr>\<lparr>ob_status := Queued,
                  ob_attempts := ob_attempts (sample_row\<lparr>ob_attempts := 6\<rparr>) + 1,
                  next_run_at := 3000 + backoffSchedule ! ob_attempts (sample_row\<lparr>ob_attempts := 6\<rparr>) * 1000,
                  updated_at := 3000, error_message := or_null (Some ''503 Service Unavailable''),
                  last_attempt_at := Some 3000\<rparr>
           else sample_row\<lparr>ob_attempts := 6\<rparr>\<lparr>ob_status := Dead, updated_at := 3000,
                  error_message := or_null (Some ''503 Service Unavailable''),
                  last_attempt_at := Some 3000\<rparr>)"
    by blast
  then have c2: "getJobById ''job_1''
       (rows (processNextJob 2000 (Threw ''503 Service Unavailable'') 3000 ?q)) =
       Some (sample_row\<lparr>ob_attempts := 6, ob_status := Dead, updated_at := 3000,
               error_message := Some ''503 Service Unavailable'', last_attempt_at := Some 3000\<rparr>)"
    by (simp add: sample_row_def backoffSchedule_def or_null_def)
  have c3: "map ob_attempts (rows (e_run ?evs empty_equeue)) = [1]"
    using isRetryable_503 by (simp add: e_eval)
  from h1 h2 c1 c2 c3 show ?thesis by simp
qed

subsection \<open>Claim C4\<close>




subsection \<open>Claim C5\<close>

text \<open>
  Claim C5, as stated, fails in the renderer's queue: its \<^verbatim>\<open>retryJob\<close> refuses a
  dead job and leaves it dead, and accepts a failed one.
\<close>

theorem C5_counterexample:
  "r_retryJob ''job_1'' 5000 0 (rqueue_of [sample_job\<lparr>jb_status := Dead, jb_attempts := 6\<rparr>]) =
     (False, rqueue_of [sample_job\<lparr>jb_status := Dead, jb_attempts := 6\<rparr>])
   \<and> fst (r_retryJob ''job_1'' 5000 0 (rqueue_of [sample_job\<lparr>jb_status := Failed, jb_attempts := 1\<rparr>])) = True"
  by (simp add: r_retryJob_def rqueue_of_def new_rqueue_def jobs_get_def sample_job_def new_job_def
      default_config_def)

text \<open>
  Claim C5, amended. In the outbox \<^verbatim>\<open>retryJob\<close> succeeds exactly when the stored job
  is dead, and then the job is queued with zero attempts and \<open>next_run_at = now\<close>; a
  job of any other status gives "Job is not in a retryable state" and an absent id gives
  "Job not found", the queue unchanged in both cases. In the renderer's queue
  \<^verbatim>\<open>retryJob\<close> returns \<^verbatim>\<open>true\<close> exactly for a failed job with attempts below its
  maximum, which it queues with one more attempt and a new run time; a failed job at its
  maximum is marked dead; any other job, a dead one too, and an absent id give
  \<^verbatim>\<open>false\<close> with the queue unchanged.
\<close>

theorem C5_retryJob:
  "(case getJobById i (rows q) of
      None \<Rightarrow> retryJob i now q = (\<lparr>rr_success = False, rr_error = Some ''Job not found''\<rparr>, q)
    | Some job \<Rightarrow>
        if ob_status job = Dead then
          fst (retryJob i now q) = \<lparr>rr_success = True, rr_error = None\<rparr> \<and>
          getJobById i (rows (snd (retryJob i now q))) =
            Some (job\<lparr>ob_status := Queued, ob_attempts := 0, next_run_at := now,
                      updated_at := now, error_message := None, last_attempt_at := Some now\<rparr>)
        else retryJob i now q =
               (\<lparr>rr_success = False, rr_error = Some ''Job is not in a retryable state''\<rparr>, q))
   \<and> (case jobs_get i (jobs rq) of
        None \<Rightarrow> r_retryJob i now jitter rq = (False, rq)
      | Some job \<Rightarrow>
          if jb_status job \<noteq> Failed then r_retryJob i now jitter rq = (False, rq)
          else if jb_attempts job < maxAttempts job then
            fst (r_retryJob i now jitter rq) = True \<and>
            jobs_get i (jobs (snd (r_retryJob i now jitter rq))) =
              Some (job\<lparr>jb_status := Queued, jb_attempts := jb_attempts job + 1,
                        nextRunAt := calculateNextRunTime (config rq) (jb_attempts job + 1) now jitter,
                        updatedAt := now, jb_error := None\<rparr>)
          else
            fst (r_retryJob i now jitter rq) = False \<and>
            jobs_get i (jobs (snd (r_retryJob i now jitter rq))) =
              Some (job\<lparr>jb_status := Dead, updatedAt := now\<rparr>))"
proof (rule conjI)
  show "case getJobById i (rows q) of
      None \<Rightarrow> retryJob i now q = (\<lparr>rr_success = False, rr_error = Some ''Job not found''\<rparr>, q)
    | Some job \<Rightarrow>
        if ob_status job = Dead then
          fst (retryJob i now q) = \<lparr>rr_success = True, rr_error = None\<rparr> \<and>
          getJobById i (rows (snd (retryJob i now q))) =
            Some (job\<lparr>ob_status := Queued, ob_attempts := 0, next_run_at := now,
                      updated_at := now, error_message := None, last_attempt_at := Some now\<rparr>)
        else retryJob i now q =
               (\<lparr>rr_success = False, rr_error = Some ''Job is not in a retryable state''\<rparr>, q)"
  proof (cases "getJobById i (rows q)")
    case None
    then show ?thesis by (simp add: e_retryJob_absent)
  next
    case (Some job)
    then show ?thesis
      using e_retryJob_dead[OF Some, of now] e_retryJob_other[OF Some, of now] by simp
  qed
next
  show "case jobs_get i (jobs rq) of
        None \<Rightarrow> r_retryJob i now jitter rq = (False, rq)
      | Some job \<Rightarrow>
          if jb_status job \<noteq> Failed then r_retryJob i now jitter rq = (False, rq)
          else if jb_attempts job < maxAttempts job then
            fst (r_retryJob i now jitter rq) = True \<and>
            jobs_get i (jobs (snd (r_retryJob i now jitter rq))) =
              Some (job\<lparr>jb_status := Queued, jb_attempts := jb_attempts job + 1,
                        nextRunAt := calculateNextRunTime (config rq) (jb_attempts job + 1) now jitter,
                        updatedAt := now, jb_error := None\<rparr>)
          else
            fst (r_retryJob i now jitter rq) = False \<and>
            jobs_get i (jobs (snd (r_retryJob i now jitter rq))) =
              Some (job\<lparr>jb_status := Dead, updatedAt := now\<rparr>)"
  proof (cases "jobs_get i (jobs rq)")
    case None
    then show ?thesis by (simp add: r_retryJob_def)
  next
    case (Some job)
    have m1: "jobs_get i (jobs_modify i (\<lambda>j. j\<lparr>jb_status := Dead, updatedAt := now\<rparr>) (jobs rq)) =
        Some (job\<lparr>jb_status := Dead, updatedAt := now\<rparr>)"
      by (rule jobs_get_modify[OF Some]) simp
    have m2: "jobs_get i (jobs_modify i (\<lambda>j. j\<lparr>jb_status := Queued, jb_attempts := jb_attempts j + 1,
                          nextRunAt := calculateNextRunTime (config rq) (jb_attempts j + 1) now jitter,
                          updatedAt := now, jb_error := None\<rparr>) (jobs rq)) =
        Some (job\<lparr>jb_status := Queued, jb_attempts := jb_attempts job + 1,
                        nextRunAt := calculateNextRunTime (config rq) (jb_attempts job + 1) now jitter,
                        updatedAt := now, jb_error := None\<rparr>)"
      by (rule jobs_get_modify[OF Some]) simp
    show ?thesis using Some m1 m2 by (simp add: r_retryJob_def)
  qed
qed

text \<open>The instance: a dead row in the outbox, a failed job in the renderer's queue.\<close>

theorem C5_retryJob_witness:
  "getJobById ''job_1'' (rows (equeue_of [sample_row\<lparr>ob_status := Dead, ob_attempts := 6\<rparr>])) =
     Some (sample_row\<lparr>ob_status := Dead, ob_attempts := 6\<rparr>)
   \<and> fst (retryJob ''job_1'' 5000 (equeue_of [sample_row\<lparr>ob_status := Dead, ob_attempts := 6\<rparr>])) =
       \<lparr>rr_success = True, rr_error = None\<rparr>
   \<and> getJobById ''job_1''
       (rows (snd (retryJob ''job_1'' 5000 (equeue_of [sample_row\<lparr>ob_status := Dead, ob_attempts := 6\<rparr>])))) =
       Some (sample_row\<lparr>ob_status := Queued, ob_attempts := 0, next_run_at := 5000,
               updated_at := 5000, error_message := None, last_attempt_at := Some 5000\<rparr>)
   \<and> jobs_get ''job_1'' (jobs (rqueue_of [sample_job\<lparr>jb_status := Failed, jb_attempts := 1\<rparr>])) =
       Some (sample_job\<lparr>jb_status := Failed, jb_attempts := 1\<rparr>)
   \<and> fst (r_retryJob ''job_1'' 5000 0 (rqueue_of [sample_job\<lparr>jb_status := Failed, jb_attempts := 1\<rparr>])) = True"
  using C5_retryJob[where i = "''job_1''"
      and q = "equeue_of [sample_row\<lparr>ob_status := Dead, ob_attempts := 6\<rparr>]" and now = 5000
      and rq = "rqueue_of [sample_job\<lparr>jb_status := Failed, jb_attempts := 1\<rparr>]" and jitter = 0]
  by (simp add: equeue_of_def empty_equeue_def rqueue_of_def new_rqueue_def getJobById_def
      jobs_get_def sample_row_def sample_job_def new_job_def default_config_def)

subsection \<open>Claim C6\<close>

text \<open>
  Claim C6. In every state that a history of events reaches from the empty queue, at most
  \<open>concurrency\<close> jobs (2 by default) have status running and at most that many are in
  the running set; while a job is in the running set no timer tick (outbox) and no call of
  \<^verbatim>\<open>processQueue\<close> (renderer) hands anything to a handler, and the settling of the job
  does not hand it over again; and whatever a tick or the dispatch loop hands over was
  outside the running set, with the set below the limit. An event is what runs between
  two awaits of the source; in the outbox the database calls of a tick count with it.
\<close>

theorem C6_concurrency_bound:
  "(list_all e_from_caller evs \<longrightarrow>
      length (filter (\<lambda>r. ob_status r = Running) (rows (e_run evs empty_equeue))) \<le> maxConcurrency \<and>
      length (activeJobs (e_run evs empty_equeue)) \<le> maxConcurrency \<and>
      (\<forall>i now. i \<in> set (activeJobs (e_run evs empty_equeue)) \<longrightarrow>
         tick now (e_run evs empty_equeue) = e_run evs empty_equeue))
   \<and> (tick t0 q \<noteq> q \<longrightarrow>
        \<not> isProcessing q \<and> length (activeJobs q) < maxConcurrency \<and>
        (\<exists>j. getNextJobToProcess t0 (rows q) = Some j \<and> nextJob (tick t0 q) = Some j \<and>
             ob_status j = Queued \<and>
             activeJobs (tick t0 q) = List.insert (ob_id j) (activeJobs q)))
   \<and> maxConcurrency = 2
   \<and> (r_fresh revs (new_rqueue cfg) \<longrightarrow>
      length (filter (\<lambda>j. jb_status j = Running) (jobs (r_run revs (new_rqueue cfg)))) \<le> concurrency cfg \<and>
      length (running (r_run revs (new_rqueue cfg))) \<le> concurrency cfg \<and>
      (\<forall>i now out t jitter. i \<in> set (running (r_run revs (new_rqueue cfg))) \<longrightarrow>
         processQueue now (r_run revs (new_rqueue cfg)) = r_run revs (new_rqueue cfg) \<and>
         pass_job (r_settle out t jitter (r_run revs (new_rqueue cfg))) \<noteq> Some i))
   \<and> (pass_job (dispatch_loop t1 rest rq) = Some k \<longrightarrow>
        k \<notin> set (running rq) \<and> length (running rq) < concurrency (config rq))
   \<and> concurrency default_config = 2"
proof (intro conjI impI allI)
  assume a: "list_all e_from_caller evs"
  from e_inv_run[OF e_inv_empty a] have inv: "e_inv (e_run evs empty_equeue)" .
  from e_running_count[OF inv]
  show "length (filter (\<lambda>r. ob_status r = Running) (rows (e_run evs empty_equeue))) \<le> maxConcurrency"
    "length (activeJobs (e_run evs empty_equeue)) \<le> maxConcurrency"
    by (simp_all add: maxConcurrency_def)
  fix i now assume "i \<in> set (activeJobs (e_run evs empty_equeue))"
  with inv show "tick now (e_run evs empty_equeue) = e_run evs empty_equeue"
    by (rule e_tick_blocked)
next
  assume "tick t0 q \<noteq> q"
  from e_tick_handover[OF this]
  show "\<not> isProcessing q" "length (activeJobs q) < maxConcurrency"
    "\<exists>j. getNextJobToProcess t0 (rows q) = Some j \<and> nextJob (tick t0 q) = Some j \<and>
             ob_status j = Queued \<and>
             activeJobs (tick t0 q) = List.insert (ob_id j) (activeJobs q)"
    by simp_all
next
  show "maxConcurrency = 2" by (simp add: maxConcurrency_def)
  show "concurrency default_config = 2" by (simp add: default_config_def)
next
  assume a: "r_fresh revs (new_rqueue cfg)"
  from r_inv_run[OF r_inv_new a] have inv: "r_inv (r_run revs (new_rqueue cfg))" .
  have cfg: "config (new_rqueue cfg) = cfg" by (simp add: new_rqueue_def)
  from r_running_count[OF inv]
  show "length (filter (\<lambda>j. jb_status j = Running) (jobs (r_run revs (new_rqueue cfg)))) \<le> concurrency cfg"
    "length (running (r_run revs (new_rqueue cfg))) \<le> concurrency cfg"
    by (simp_all add: cfg)
  fix i now out t jitter assume i: "i \<in> set (running (r_run revs (new_rqueue cfg)))"
  from r_running_blocked[OF inv i]
  show "processQueue now (r_run revs (new_rqueue cfg)) = r_run revs (new_rqueue cfg)"
    "pass_job (r_settle out t jitter (r_run revs (new_rqueue cfg))) \<noteq> Some i"
    by simp_all
next
  assume a: "pass_job (dispatch_loop t1 rest rq) = Some k"
  from r_dispatch_guard(1,2)[OF a]
  show "k \<notin> set (running rq)" "length (running rq) < concurrency (config rq)" by simp_all
qed

text \<open>
  The instance: three due jobs are enqueued in each queue and one dispatch is made; one
  job is running, and a second tick or pass changes nothing.
\<close>

theorem C6_concurrency_bound_witness:
  "list_all e_from_caller e_three_jobs_history \<and> map (\<lambda>r. (ob_id r, ob_status r))
       (rows (e_run e_three_jobs_history empty_equeue)) =
       [(''job_1'', Running), (''job_2'', Queued), (''job_3'', Queued)]
   \<and> activeJobs (e_run e_three_jobs_history empty_equeue) = [''job_1'']
   \<and> tick 2100 (e_run e_three_jobs_history empty_equeue) =
       e_run e_three_jobs_history empty_equeue
   \<and> tick 2000 (equeue_of [sample_row]) \<noteq> equeue_of [sample_row]
   \<and> nextJob (tick 2000 (equeue_of [sample_row])) = Some sample_row
   \<and> r_fresh r_three_jobs_history (new_rqueue default_config)
   \<and> map (\<lambda>j. (jb_id j, jb_status j))
       (jobs (r_run r_three_jobs_history (new_rqueue default_config))) =
       [(''job_1'', Running), (''job_2'', Queued), (''job_3'', Queued)]
   \<and> running (r_run r_three_jobs_history (new_rqueue default_config)) = [''job_1'']
   \<and> pass_job (r_settle (Returned ''{labelId: L1}'') 2200 0 (r_run r_three_jobs_history (new_rqueue default_config))) = Some ''job_2''
   \<and> pass_job (dispatch_loop 2000 [''job_1''] ((rqueue_of [sample_job])\<lparr>pass_now := 2000\<rparr>)) =
       Some ''job_1''
   \<and> length (running ((rqueue_of [sample_job])\<lparr>pass_now := 2000\<rparr>)) <
       concurrency (config ((rqueue_of [sample_job])\<lparr>pass_now := 2000\<rparr>))"
proof -
  let ?evs = "e_three_jobs_history"
  let ?revs = "r_three_jobs_history"
  let ?q0 = "equeue_of [sample_row]"
  let ?rq0 = "(rqueue_of [sample_job])\<lparr>pass_now := 2000\<rparr>"
  note t = C6_concurrency_bound[where evs = ?evs and ?t0.0 = 2000 and q = ?q0 and revs = ?revs
      and cfg = default_config and ?t1.0 = 2000 and rest = "[''job_1'']" and rq = ?rq0
      and k = "''job_1''"]
  have h1: "list_all e_from_caller ?evs"
    by (simp add: sample_row_def e_three_jobs_history_def)
  have e_rows: "map (\<lambda>r. (ob_id r, ob_status r)) (rows (e_run ?evs empty_equeue)) =
       [(''job_1'', Running), (''job_2'', Queued), (''job_3'', Queued)]"
    by (simp add: e_eval)
  have e_act: "activeJobs (e_run ?evs empty_equeue) = [''job_1'']" by (simp add: e_eval)
  note p1 = t[THEN conjunct1, THEN mp, OF h1]
  from p1 e_act have c1: "tick 2100 (e_run ?evs empty_equeue) = e_run ?evs empty_equeue"
    by simp
  have h2: "tick 2000 ?q0 \<noteq> ?q0" by (simp add: e_eval)
  note p2 = t[THEN conjunct2, THEN conjunct1, THEN mp, OF h2]
  have c2: "nextJob (tick 2000 ?q0) = Some sample_row" by (simp add: e_eval)
  have h3: "r_fresh ?revs (new_rqueue default_config)" by (simp add: r_eval)
  note p3 = t[THEN conjunct2, THEN conjunct2, THEN conjunct2, THEN conjunct1, THEN mp, OF h3]
  have r_jobs: "map (\<lambda>j. (jb_id j, jb_status j)) (jobs (r_run ?revs (new_rqueue default_config))) =
       [(''job_1'', Running), (''job_2'', Queued), (''job_3'', Queued)]"
    by (simp add: r_eval)
  have r_run: "running (r_run ?revs (new_rqueue default_config)) = [''job_1'']"
    by (simp add: r_eval)
  have r_set: "pass_job (r_settle (Returned ''{labelId: L1}'') 2200 0
        (r_run ?revs (new_rqueue default_config))) = Some ''job_2''"
    by (simp add: r_eval)
  have h4: "pass_job (dispatch_loop 2000 [''job_1''] ?rq0) = Some ''job_1''" by (simp add: r_eval)
  note p4 = t[THEN conjunct2, THEN conjunct2, THEN conjunct2, THEN conjunct2, THEN conjunct1,
      THEN mp, OF h4]
  from p4 have c4: "length (running ?rq0) < concurrency (config ?rq0)" by simp
  from h1 e_rows e_act c1 h2 c2 h3 r_jobs r_run r_set h4 c4 show ?thesis by simp
qed

subsection \<open>Claim C7\<close>

text \<open>
  Claim C7, as stated, fails in the renderer's queue: its delays are powers of two
  seconds, two seconds after the first failure and not one minute, and a job with 5
  attempts dies at the failure that brings them to 6, the maximum, without exceeding it.
\<close>

theorem C7_counterexample:
  "map (baseDelay default_config) [1, 2, 3, 4, 5, 6] = [2000, 4000, 8000, 16000, 32000, 64000]
   \<and> jobs (r_settle (Thrown ''503 Service Unavailable'') 3000 0
         (processQueue 2000 (rqueue_of [sample_job\<lparr>jb_attempts := 5\<rparr>]))) =
     [sample_job\<lparr>jb_status := Dead, jb_attempts := 6,
                  jb_error := Some ''503 Service Unavailable'', updatedAt := 3000\<rparr>]
   \<and> maxAttempts sample_job = 6"
  by (simp add: r_eval)

text \<open>
  Claim C7, amended. In the outbox the backoff schedule is 60, 300, 900, 1800, 3600, 7200
  seconds, strictly increasing; a retryable failure of a job with fewer than 6 attempts
  queues it with one more attempt and a run time of the clock plus the schedule entry of
  its attempts, strictly later than the run time it was selected at; a retryable failure
  of a job whose attempts would exceed 6 makes it dead and leaves the run time. In the
  renderer's queue the delay before jitter is the smaller of \<open>maxBackoffMs\<close> and
  \<open>backoffMultiplier ^ attempts\<close> seconds: 2, 4, 8, 16, 32 seconds for the default
  configuration, never decreasing in the attempts for a multiplier of at least one; a
  failure below the maximum gives a run time strictly later than the previous one, and the
  job is dead exactly when its attempts reach its maximum.
\<close>

theorem C7_backoff:
  "backoffSchedule = [60, 300, 900, 1800, 3600, 7200]
   \<and> sorted_wrt (<) backoffSchedule
   \<and> (\<not> isProcessing q \<and> activeJobs q = [] \<and> distinct (map ob_id (rows q)) \<and>
      getNextJobToProcess t0 (rows q) = Some j \<and> isRetryableError m \<and> t0 \<le> t1 \<longrightarrow>
        (\<exists>r. getJobById (ob_id j) (rows (processNextJob t0 (Threw m) t1 q)) = Some r \<and>
          (if ob_attempts j + 1 > length backoffSchedule
           then ob_status r = Dead \<and> ob_attempts r = ob_attempts j \<and> next_run_at r = next_run_at j
           else ob_status r = Queued \<and> ob_attempts r = ob_attempts j + 1 \<and>
                next_run_at r = t1 + backoffSchedule ! ob_attempts j * 1000 \<and>
                next_run_at j < next_run_at r)))
   \<and> (1 \<le> backoffMultiplier cfg \<and> n \<le> n' \<longrightarrow> baseDelay cfg n \<le> baseDelay cfg n')
   \<and> map (baseDelay default_config) [1, 2, 3, 4, 5] = [2000, 4000, 8000, 16000, 32000]
   \<and> (1 \<le> backoffMultiplier cfg \<and> 0 < maxBackoffMs cfg \<and> nextRunAt job \<le> now \<and>
      jb_attempts job + 1 < maxAttempts job \<longrightarrow>
        jb_status (job_settled cfg (Thrown e) now jitter job) = Failed \<and>
        nextRunAt (job_settled cfg (Thrown e) now jitter job) =
          now + (baseDelay cfg (jb_attempts job + 1) + jitter) \<and>
        nextRunAt job < nextRunAt (job_settled cfg (Thrown e) now jitter job))
   \<and> (jb_status (job_settled cfg (Thrown e) now jitter job) = Dead \<longleftrightarrow>
        maxAttempts job \<le> jb_attempts job + 1)"
proof (intro conjI impI)
  show "backoffSchedule = [60, 300, 900, 1800, 3600, 7200]" by (simp add: backoffSchedule_def)
  show "sorted_wrt (<) backoffSchedule" by (rule backoff_strict)
  show "map (baseDelay default_config) [1, 2, 3, 4, 5] = [2000, 4000, 8000, 16000, 32000]"
    by (simp add: baseDelay_def default_config_def)
  show "jb_status (job_settled cfg (Thrown e) now jitter job) = Dead \<longleftrightarrow>
        maxAttempts job \<le> jb_attempts job + 1"
    by (simp add: r_job_settled_thrown)
next
  assume "1 \<le> backoffMultiplier cfg \<and> n \<le> n'"
  then show "baseDelay cfg n \<le> baseDelay cfg n'" by (simp add: baseDelay_mono)
next
  assume a: "1 \<le> backoffMultiplier cfg \<and> 0 < maxBackoffMs cfg \<and> nextRunAt job \<le> now \<and>
      jb_attempts job + 1 < maxAttempts job"
  then have s: "job_settled cfg (Thrown e) now jitter job =
      job\<lparr>jb_attempts := jb_attempts job + 1, jb_error := Some e, updatedAt := now,
               jb_status := Failed,
               nextRunAt := calculateNextRunTime cfg (jb_attempts job + 1) now jitter\<rparr>"
    by (simp add: r_job_settled_thrown)
  show "jb_status (job_settled cfg (Thrown e) now jitter job) = Failed" by (simp add: s)
  show "nextRunAt (job_settled cfg (Thrown e) now jitter job) =
          now + (baseDelay cfg (jb_attempts job + 1) + jitter)"
    by (simp add: s calculateNextRunTime_def)
  from a have "0 < baseDelay cfg (jb_attempts job + 1)" by (intro baseDelay_pos) simp_all
  with a show "nextRunAt job < nextRunAt (job_settled cfg (Thrown e) now jitter job)"
    by (simp add: s calculateNextRunTime_def)
next
  assume a: "\<not> isProcessing q \<and> activeJobs q = [] \<and> distinct (map ob_id (rows q)) \<and>
      getNextJobToProcess t0 (rows q) = Some j \<and> isRetryableError m \<and> t0 \<le> t1"
  then have r: "getJobById (ob_id j) (rows (processNextJob t0 (Threw m) t1 q)) =
     Some (if ob_attempts j < length backoffSchedule
           then j\<lparr>ob_status := Queued, ob_attempts := ob_attempts j + 1,
                  next_run_at := t1 + backoffSchedule ! ob_attempts j * 1000,
                  updated_at := t1, error_message := or_null (Some m),
                  last_attempt_at := Some t1\<rparr>
           else j\<lparr>ob_status := Dead, updated_at := t1, error_message := or_null (Some m),
                  last_attempt_at := Some t1\<rparr>)"
    by (intro e_retryable_failure_row) simp_all
  from a have due: "next_run_at j \<le> t0" using getNext_SomeD(2)[of t0 "rows q" j]
    by (simp add: is_due_def)
  show "\<exists>r. getJobById (ob_id j) (rows (processNextJob t0 (Threw m) t1 q)) = Some r \<and>
          (if ob_attempts j + 1 > length backoffSchedule
           then ob_status r = Dead \<and> ob_attempts r = ob_attempts j \<and> next_run_at r = next_run_at j
           else ob_status r = Queued \<and> ob_attempts r = ob_attempts j + 1 \<and>
                next_run_at r = t1 + backoffSchedule ! ob_attempts j * 1000 \<and>
                next_run_at j < next_run_at r)"
  proof (cases "ob_attempts j < length backoffSchedule")
    case True
    then have "backoffSchedule ! ob_attempts j \<in> set backoffSchedule" by simp
    then have "0 < backoffSchedule ! ob_attempts j" by (auto simp: backoffSchedule_def)
    with due a have "next_run_at j < t1 + backoffSchedule ! ob_attempts j * 1000" by simp
    with True r show ?thesis by simp
  next
    case False
    with r show ?thesis by simp
  qed
qed

text \<open>
  The instance: the sample job fails with "503 Service Unavailable" in the outbox and is
  queued again one minute later; in the renderer's queue it fails and is due two seconds
  later.
\<close>

theorem C7_backoff_witness:
  "\<not> isProcessing (equeue_of [sample_row]) \<and> activeJobs (equeue_of [sample_row]) = [] \<and>
   distinct (map ob_id (rows (equeue_of [sample_row]))) \<and>
   getNextJobToProcess 2000 (rows (equeue_of [sample_row])) = Some sample_row \<and>
   isRetryableError ''503 Service Unavailable'' \<and> (2000::nat) \<le> 3000
   \<and> (\<exists>r. getJobById ''job_1''
            (rows (processNextJob 2000 (Threw ''503 Service Unavailable'') 3000
               (equeue_of [sample_row]))) = Some r \<and>
          ob_status r = Queued \<and> ob_attempts r = 1 \<and> next_run_at r = 63000 \<and>
          next_run_at sample_row < next_run_at r)
   \<and> (1::nat) \<le> backoffMultiplier default_config \<and> (1::nat) \<le> 2
   \<and> baseDelay default_config 1 \<le> baseDelay default_config 2
   \<and> 0 < maxBackoffMs default_config \<and> nextRunAt sample_job \<le> 3000
   \<and> jb_attempts sample_job + 1 < maxAttempts sample_job
   \<and> jb_status (job_settled default_config (Thrown ''503 Service Unavailable'') 3000 0 sample_job) = Failed
   \<and> nextRunAt (job_settled default_config (Thrown ''503 Service Unavailable'') 3000 0 sample_job) = 5000"
proof -
  let ?q = "equeue_of [sample_row]"
  note t = C7_backoff[where q = ?q and ?t0.0 = 2000 and ?t1.0 = 3000 and j = sample_row
      and m = "''503 Service Unavailable''" and cfg = default_config and n = 1 and n' = 2
      and job = sample_job and now = 3000 and jitter = 0 and e = "''503 Service Unavailable''"]
  have h1: "\<not> isProcessing ?q \<and> activeJobs ?q = [] \<and> distinct (map ob_id (rows ?q)) \<and>
      getNextJobToProcess 2000 (rows ?q) = Some sample_row \<and>
      isRetryableError ''503 Service Unavailable'' \<and> (2000::nat) \<le> 3000"
    using isRetryable_503
    by (simp add: equeue_of_def empty_equeue_def getNextJobToProcess_def is_due_def sample_row_def)
  have h2: "(1::nat) \<le> backoffMultiplier default_config \<and> (1::nat) \<le> 2"
    by (simp add: default_config_def)
  have h3: "1 \<le> backoffMultiplier default_config \<and> 0 < maxBackoffMs default_config \<and>
      nextRunAt sample_job \<le> 3000 \<and> jb_attempts sample_job + 1 < maxAttempts sample_job"
    by (simp add: default_config_def sample_job_def new_job_def)
  note p3 = t[THEN conjunct2, THEN conjunct2, THEN conjunct1, THEN mp, OF h1]
  note p4 = t[THEN conjunct2, THEN conjunct2, THEN conjunct2, THEN conjunct1, THEN mp, OF h2]
  note p6 = t[THEN conjunct2, THEN conjunct2, THEN conjunct2, THEN conjunct2, THEN conjunct2,
      THEN conjunct1, THEN mp, OF h3]
  from p3 obtain r where r: "getJobById (ob_id sample_row)
        (rows (processNextJob 2000 (Threw ''503 Service Unavailable'') 3000 ?q)) = Some r"
      "if ob_attempts sample_row + 1 > length backoffSchedule
           then ob_status r = Dead \<and> ob_attempts r = ob_attempts sample_row \<and>
                next_run_at r = next_run_at sample_row
           else ob_status r = Queued \<and> ob_attempts r = ob_attempts sample_row + 1 \<and>
                next_run_at r = 3000 + backoffSchedule ! ob_attempts sample_row * 1000 \<and>
                next_run_at sample_row < next_run_at r"
    by (elim exE conjE)
  then have c1: "\<exists>r. getJobById ''job_1''
            (rows (processNextJob 2000 (Threw ''503 Service Unavailable'') 3000 ?q)) = Some r \<and>
          ob_status r = Queued \<and> ob_attempts r = 1 \<and> next_run_at r = 63000 \<and>
          next_run_at sample_row < next_run_at r"
    by (intro exI[of _ r]) (simp add: sample_row_def backoffSchedule_def)
  from p4 have c2: "baseDelay default_config 1 \<le> baseDelay default_config 2" .
  from p6 have "jb_status (job_settled default_config (Thrown ''503 Service Unavailable'') 3000 0 sample_job) = Failed \<and>
        nextRunAt (job_settled default_config (Thrown ''503 Service Unavailable'') 3000 0 sample_job) =
          3000 + (baseDelay default_config (jb_attempts sample_job + 1) + 0)" by simp
  then have c3: "jb_status (job_settled default_config (Thrown ''503 Service Unavailable'') 3000 0 sample_job) = Failed"
    "nextRunAt (job_settled default_config (Thrown ''503 Service Unavailable'') 3000 0 sample_job) = 5000"
    by (simp_all add: baseDelay_def default_config_def sample_job_def new_job_def)
  from h1 h2 h3 c1 c2 c3 show ?thesis by simp
qed

subsection \<open>Claim C8\<close>




subsection \<open>Claim C9\<close>

text \<open>
  Claim C9. Once a job is succeeded, no later event of either queue - an enqueue (under
  the same key or another), \<^verbatim>\<open>retryJob\<close>, a dispatch, the settling of a handler, the
  purge of dead jobs - changes it: after every history the job stored under its id is the
  same record, so its status, its attempts, its error and (in the renderer's queue) its
  result are the same. The states are those that keep the invariant of their queue, as
  every state reached from the empty queue does; the outbox receives jobs that are
  enqueued as queued, and the renderer's queue ids that are new.
\<close>

theorem C9_succeeded_is_final:
  "(e_inv q \<and> list_all e_from_caller evs \<and> J \<in> set (rows q) \<and> ob_status J = Succeeded \<longrightarrow>
      getJobById (ob_id J) (rows (e_run evs q)) = Some J)
   \<and> (r_inv rq \<and> r_fresh revs rq \<and> K \<in> set (jobs rq) \<and> jb_status K = Succeeded \<longrightarrow>
      jobs_get (jb_id K) (jobs (r_run revs rq)) = Some K)"
proof (intro conjI impI)
  assume a: "e_inv q \<and> list_all e_from_caller evs \<and> J \<in> set (rows q) \<and> ob_status J = Succeeded"
  then have "J \<in> set (rows (e_run evs q))" by (intro e_succeeded_run) simp_all
  moreover from a have "e_inv (e_run evs q)" by (intro e_inv_run) simp_all
  then have "distinct (map ob_id (rows (e_run evs q)))" by (simp add: e_inv_cases(3))
  ultimately show "getJobById (ob_id J) (rows (e_run evs q)) = Some J"
    by (intro getJobById_distinct)
next
  assume a: "r_inv rq \<and> r_fresh revs rq \<and> K \<in> set (jobs rq) \<and> jb_status K = Succeeded"
  then have "K \<in> set (jobs (r_run revs rq))" by (intro r_succeeded_run) simp_all
  moreover from a have "r_inv (r_run revs rq)" by (intro r_inv_run) simp_all
  then have "distinct (map jb_id (jobs (r_run revs rq)))" by (simp add: r_inv_parts(1))
  ultimately show "jobs_get (jb_id K) (jobs (r_run revs rq)) = Some K"
    by (intro jobs_get_distinct)
qed

text \<open>
  The instance: the sample job has succeeded; then its key is enqueued again, a retry of
  it is asked for, another job is dispatched and fails, and the dead jobs are purged.
\<close>

theorem C9_succeeded_is_final_witness:
  "e_inv (equeue_of [sample_row\<lparr>ob_status := Succeeded\<rparr>])
   \<and> list_all e_from_caller e_later_history \<and> sample_row\<lparr>ob_status := Succeeded\<rparr> \<in> set (rows (equeue_of [sample_row\<lparr>ob_status := Succeeded\<rparr>]))
   \<and> ob_status (sample_row\<lparr>ob_status := Succeeded\<rparr>) = Succeeded
   \<and> getJobById ''job_1''
       (rows (e_run e_later_history (equeue_of [sample_row\<lparr>ob_status := Succeeded\<rparr>]))) =
       Some (sample_row\<lparr>ob_status := Succeeded\<rparr>)
   \<and> r_inv (rqueue_of [sample_job\<lparr>jb_status := Succeeded, jb_result := Some ''{labelId: L1}''\<rparr>])
   \<and> r_fresh r_later_history (rqueue_of [sample_job\<lparr>jb_status := Succeeded, jb_result := Some ''{labelId: L1}''\<rparr>])
   \<and> jobs_get ''job_1''
       (jobs (r_run r_later_history (rqueue_of [sample_job\<lparr>jb_status := Succeeded, jb_result := Some ''{labelId: L1}''\<rparr>]))) =
       Some (sample_job\<lparr>jb_status := Succeeded, jb_result := Some ''{labelId: L1}''\<rparr>)"
proof -
  let ?J = "sample_row\<lparr>ob_status := Succeeded\<rparr>"
  let ?q = "equeue_of [?J]"
  let ?evs = "e_later_history"
  let ?K = "sample_job\<lparr>jb_status := Succeeded, jb_result := Some ''{labelId: L1}''\<rparr>"
  let ?rq = "rqueue_of [?K]"
  let ?revs = "r_later_history"
  note t = C9_succeeded_is_final[where q = ?q and evs = ?evs and J = ?J and rq = ?rq
      and revs = ?revs and K = ?K]
  have h1: "e_inv ?q \<and> list_all e_from_caller ?evs \<and> ?J \<in> set (rows ?q) \<and> ob_status ?J = Succeeded"
    by (simp add: e_inv_def equeue_of_def empty_equeue_def sample_row_def e_later_history_def)
  have h2a: "r_inv ?rq" by (simp add: r_inv_def rqueue_of_def new_rqueue_def)
  have h2b: "r_fresh ?revs ?rq" by (simp add: r_eval)
  have h2: "r_inv ?rq \<and> r_fresh ?revs ?rq \<and> ?K \<in> set (jobs ?rq) \<and> jb_status ?K = Succeeded"
    using h2a h2b by (simp add: rqueue_of_def new_rqueue_def)
  note c1 = t[THEN conjunct1, THEN mp, OF h1]
  note c2 = t[THEN conjunct2, THEN mp, OF h2]
  have c1': "getJobById ''job_1'' (rows (e_run ?evs ?q)) = Some ?J"
    using c1 by (simp add: sample_row_def)
  have c2': "jobs_get ''job_1'' (jobs (r_run ?revs ?rq)) = Some ?K"
    using c2 by (simp add: sample_job_def new_job_def)
  from h1 h2 c1' c2' show ?thesis by simp
qed

subsection \<open>Claim C10\<close>

text \<open>
  Claim C10. For every state of either queue, the statistics of \<^verbatim>\<open>getStats\<close> satisfy
  total = queued + running + succeeded + failed + dead; each bucket is the number of stored
  jobs with that status, so every stored job is counted in exactly one bucket, and the total
  is the number of stored jobs.
\<close>

theorem C10_stats_partition:
  "qs_total (getStats q) =
     qs_queued (getStats q) + qs_running (getStats q) + qs_succeeded (getStats q) +
     qs_failed (getStats q) + qs_dead (getStats q)
   \<and> qs_total (getStats q) = length (rows q)
   \<and> qs_queued (getStats q) = length (filter (\<lambda>r. ob_status r = Queued) (rows q))
   \<and> qs_running (getStats q) = length (filter (\<lambda>r. ob_status r = Running) (rows q))
   \<and> qs_succeeded (getStats q) = length (filter (\<lambda>r. ob_status r = Succeeded) (rows q))
   \<and> qs_failed (getStats q) = length (filter (\<lambda>r. ob_status r = Failed) (rows q))
   \<and> qs_dead (getStats q) = length (filter (\<lambda>r. ob_status r = Dead) (rows q))
   \<and> js_total (r_getStats rq) =
     js_queued (r_getStats rq) + js_running (r_getStats rq) + js_succeeded (r_getStats rq) +
     js_failed (r_getStats rq) + js_dead (r_getStats rq)
   \<and> js_total (r_getStats rq) = length (jobs rq)
   \<and> js_queued (r_getStats rq) = length (filter (\<lambda>j. jb_status j = Queued) (jobs rq))
   \<and> js_running (r_getStats rq) = length (filter (\<lambda>j. jb_status j = Running) (jobs rq))
   \<and> js_succeeded (r_getStats rq) = length (filter (\<lambda>j. jb_status j = Succeeded) (jobs rq))
   \<and> js_failed (r_getStats rq) = length (filter (\<lambda>j. jb_status j = Failed) (jobs rq))
   \<and> js_dead (r_getStats rq) = length (filter (\<lambda>j. jb_status j = Dead) (jobs rq))"
proof -
  note e = e_getStats_total[of q] e_getStats_queued[of q] e_getStats_running[of q]
    e_getStats_succeeded[of q] e_getStats_failed[of q] e_getStats_dead[of q]
  have r: "js_total (r_getStats rq) = length (jobs rq)"
    "js_queued (r_getStats rq) = length (filter (\<lambda>j. jb_status j = Queued) (jobs rq))"
    "js_running (r_getStats rq) = length (filter (\<lambda>j. jb_status j = Running) (jobs rq))"
    "js_succeeded (r_getStats rq) = length (filter (\<lambda>j. jb_status j = Succeeded) (jobs rq))"
    "js_failed (r_getStats rq) = length (filter (\<lambda>j. jb_status j = Failed) (jobs rq))"
    "js_dead (r_getStats rq) = length (filter (\<lambda>j. jb_status j = Dead) (jobs rq))"
    unfolding r_getStats_def by (simp_all add: r_stats_fold)
  show ?thesis
    unfolding e r
    using status_partition[of ob_status "rows q"] status_partition[of jb_status "jobs rq"]
    by simp
qed

end
